theory Spec2Isabelle
  imports Main
begin

section \<open>Strings of the program\<close>

text \<open>
  Python strings are modelled as \<open>string\<close> holding their UTF-8 encoding. The program only
  compares strings for equality and concatenates them, and UTF-8 encoding preserves both.
  The Japanese literals of \<open>app.py\<close> are written byte by byte.
\<close>

definition status_available :: string where
  \<comment> \<open>the status literal of lines 61, 69, 77, 96, 119 and 154 ("in stock")\<close>
  "status_available = [CHR 0xE5, CHR 0x9C, CHR 0xA8, CHR 0xE5, CHR 0xBA, CHR 0xAB,
     CHR 0xE3, CHR 0x81, CHR 0x82, CHR 0xE3, CHR 0x82, CHR 0x8A]"

definition status_checked_out :: string where
  \<comment> \<open>the status literal of lines 105, 127 and 148 ("on loan")\<close>
  "status_checked_out = [CHR 0xE8, CHR 0xB2, CHR 0xB8, CHR 0xE5, CHR 0x87, CHR 0xBA,
     CHR 0xE4, CHR 0xB8, CHR 0xAD]"

definition case_sd1 :: string where
  \<comment> \<open>the case_number literal of line 61 ("SD card 1")\<close>
  "case_sd1 = [CHR 0x53, CHR 0x44, CHR 0xE3, CHR 0x82, CHR 0xAB, CHR 0xE3, CHR 0x83, CHR 0xBC,
     CHR 0xE3, CHR 0x83, CHR 0x89, CHR 0x31]"

definition case_sd2 :: string where
  \<comment> \<open>the case_number literal of line 69 ("SD card 2")\<close>
  "case_sd2 = [CHR 0x53, CHR 0x44, CHR 0xE3, CHR 0x82, CHR 0xAB, CHR 0xE3, CHR 0x83, CHR 0xBC,
     CHR 0xE3, CHR 0x83, CHR 0x89, CHR 0x32]"

definition case_microsd :: string where
  \<comment> \<open>the case_number literal of line 77 ("micro SD card")\<close>
  "case_microsd = [CHR 0xE3, CHR 0x83, CHR 0x9E, CHR 0xE3, CHR 0x82, CHR 0xA4, CHR 0xE3, CHR 0x82,
     CHR 0xAF, CHR 0xE3, CHR 0x83, CHR 0xAD, CHR 0x53, CHR 0x44, CHR 0xE3, CHR 0x82, CHR 0xAB,
     CHR 0xE3, CHR 0x83, CHR 0xBC, CHR 0xE3, CHR 0x83, CHR 0x89]"

definition msg_unavailable_prefix :: string where
  \<comment> \<open>the text before the id list in line 122, with its colon and blank\<close>
  "msg_unavailable_prefix = [CHR 0xE4, CHR 0xBB, CHR 0xA5, CHR 0xE4, CHR 0xB8, CHR 0x8B,
     CHR 0xE3, CHR 0x81, CHR 0xAE, CHR 0xE3, CHR 0x82, CHR 0xAB, CHR 0xE3, CHR 0x83, CHR 0xBC,
     CHR 0xE3, CHR 0x83, CHR 0x89, CHR 0xE3, CHR 0x81, CHR 0xAF, CHR 0xE7, CHR 0x8F, CHR 0xBE,
     CHR 0xE5, CHR 0x9C, CHR 0xA8, CHR 0xE8, CHR 0xB2, CHR 0xB8, CHR 0xE5, CHR 0x87, CHR 0xBA,
     CHR 0xE3, CHR 0x81, CHR 0xA7, CHR 0xE3, CHR 0x81, CHR 0x8D, CHR 0xE3, CHR 0x81, CHR 0xBE,
     CHR 0xE3, CHR 0x81, CHR 0x9B, CHR 0xE3, CHR 0x82, CHR 0x93, CHR 0x3A, CHR 0x20]"

definition msg_checkout_done :: string where
  \<comment> \<open>the message of line 136\<close>
  "msg_checkout_done = [CHR 0xE8, CHR 0xB2, CHR 0xB8, CHR 0xE5, CHR 0x87, CHR 0xBA,
     CHR 0xE3, CHR 0x81, CHR 0x8C, CHR 0xE5, CHR 0xAE, CHR 0x8C, CHR 0xE4, CHR 0xBA, CHR 0x86,
     CHR 0xE3, CHR 0x81, CHR 0x97, CHR 0xE3, CHR 0x81, CHR 0xBE, CHR 0xE3, CHR 0x81, CHR 0x97,
     CHR 0xE3, CHR 0x81, CHR 0x9F]"

definition msg_cannot_return :: string where
  \<comment> \<open>the message of line 150\<close>
  "msg_cannot_return = [CHR 0xE3, CHR 0x81, CHR 0x93, CHR 0xE3, CHR 0x81, CHR 0xAE,
     CHR 0xE3, CHR 0x82, CHR 0xAB, CHR 0xE3, CHR 0x83, CHR 0xBC, CHR 0xE3, CHR 0x83, CHR 0x89,
     CHR 0xE3, CHR 0x81, CHR 0xAF, CHR 0xE8, CHR 0xBF, CHR 0x94, CHR 0xE5, CHR 0x8D, CHR 0xB4,
     CHR 0xE3, CHR 0x81, CHR 0xA7, CHR 0xE3, CHR 0x81, CHR 0x8D, CHR 0xE3, CHR 0x81, CHR 0xBE,
     CHR 0xE3, CHR 0x81, CHR 0x9B, CHR 0xE3, CHR 0x82, CHR 0x93]"

definition msg_return_done :: string where
  \<comment> \<open>the message of line 163\<close>
  "msg_return_done = [CHR 0xE8, CHR 0xBF, CHR 0x94, CHR 0xE5, CHR 0x8D, CHR 0xB4,
     CHR 0xE3, CHR 0x81, CHR 0x8C, CHR 0xE5, CHR 0xAE, CHR 0x8C, CHR 0xE4, CHR 0xBA, CHR 0x86,
     CHR 0xE3, CHR 0x81, CHR 0x97, CHR 0xE3, CHR 0x81, CHR 0xBE, CHR 0xE3, CHR 0x81, CHR 0x97,
     CHR 0xE3, CHR 0x81, CHR 0x9F]"

definition msg_error_prefix :: string where
  \<comment> \<open>the text before \<open>str(e)\<close> in lines 139 and 166, with its colon and blank\<close>
  "msg_error_prefix = [CHR 0xE3, CHR 0x82, CHR 0xA8, CHR 0xE3, CHR 0x83, CHR 0xA9,
     CHR 0xE3, CHR 0x83, CHR 0xBC, CHR 0xE3, CHR 0x81, CHR 0x8C, CHR 0xE7, CHR 0x99, CHR 0xBA,
     CHR 0xE7, CHR 0x94, CHR 0x9F, CHR 0xE3, CHR 0x81, CHR 0x97, CHR 0xE3, CHR 0x81, CHR 0xBE,
     CHR 0xE3, CHR 0x81, CHR 0x97, CHR 0xE3, CHR 0x81, CHR 0x9F, CHR 0x3A, CHR 0x20]"

text \<open>Python's \<open>str\<close> on an integer: decimal digits, with a minus sign when negative.\<close>

definition digit_char :: "nat \<Rightarrow> char" where
  "digit_char d = ''0123456789'' ! d"

function str_nat :: "nat \<Rightarrow> string" where
  "str_nat n = (if n < 10 then [digit_char n] else str_nat (n div 10) @ [digit_char (n mod 10)])"
  by pat_completeness auto
termination
  by (relation "measure (\<lambda>n. n)") auto

declare str_nat.simps [simp del]

definition str_int :: "int \<Rightarrow> string" where
  "str_int i = (if i < 0 then CHR ''-'' # str_nat (nat (- i)) else str_nat (nat i))"

text \<open>Python's \<open>sep.join(xs)\<close>.\<close>

fun join :: "string \<Rightarrow> string list \<Rightarrow> string" where
  "join sep [] = []"
| "join sep [x] = x"
| "join sep (x # y # ys) = x @ sep @ join sep (y # ys)"

section \<open>The table \<open>sdcards\<close> and the connection\<close>

type_synonym timestamp = string
type_synonym exn = string

text \<open>
  One row of the table created in \<open>init_db\<close>. The column \<open>id\<close> is called \<open>id_col\<close> here.
  The three \<open>NULL\<close>-declared text columns and the timestamp are options; the other columns
  are only ever written with values. Texts are taken to be within the length that SQLite
  stores, a thousand million bytes.
\<close>

record sdcard =
  id_col :: int
  card_number :: string
  card_index :: int
  status :: string
  capacity :: string
  checkout_date :: "timestamp option"
  user_name :: "string option"
  equipment :: "string option"
  case_number :: string
  shoot_content :: "string option"

text \<open>
  A connection sees the rows of the table, in rowid order. While a transaction is open the
  connection also holds the rows as they were when the transaction began, which is what
  \<open>ROLLBACK\<close> restores and what every other connection still sees.
\<close>

record conn =
  rows :: "sdcard list"
  journal :: "sdcard list option"

definition idle :: "sdcard list \<Rightarrow> conn" where
  "idle rs = \<lparr>rows = rs, journal = None\<rparr>"

definition committed :: "conn \<Rightarrow> sdcard list" where
  "committed c = (case journal c of None \<Rightarrow> rows c | Some j \<Rightarrow> j)"

text \<open>The statements that \<open>checkout_cards\<close> and \<open>return_card\<close> pass to \<open>c.execute\<close>.\<close>

datatype stmt =
    Begin
  | Rollback
  | Commit
  | SelectIdStatus "int list"
  | SelectStatus int
  | UpdateCheckout timestamp "string option" "string option" "string option" int
  | UpdateReturn int

definition set_checked_out ::
  "timestamp \<Rightarrow> string option \<Rightarrow> string option \<Rightarrow> string option \<Rightarrow> int \<Rightarrow> sdcard \<Rightarrow> sdcard" where
  \<comment> \<open>the \<open>UPDATE\<close> of lines 125 to 133 on one row\<close>
  "set_checked_out ts u e n i r =
     (if id_col r = i
      then r\<lparr>status := status_checked_out, checkout_date := Some ts, user_name := u,
             equipment := e, shoot_content := n\<rparr>
      else r)"

definition set_available :: "int \<Rightarrow> sdcard \<Rightarrow> sdcard" where
  \<comment> \<open>the \<open>UPDATE\<close> of lines 152 to 160 on one row\<close>
  "set_available i r =
     (if id_col r = i
      then r\<lparr>status := status_available, checkout_date := None, user_name := None,
             equipment := None, shoot_content := None\<rparr>
      else r)"

definition write_rows :: "(sdcard \<Rightarrow> sdcard) \<Rightarrow> conn \<Rightarrow> conn" where
  \<comment> \<open>a writing statement; outside a transaction the sqlite3 module opens one first\<close>
  "write_rows g c =
     \<lparr>rows = map g (rows c),
      journal = (case journal c of None \<Rightarrow> Some (rows c) | Some j \<Rightarrow> Some j)\<rparr>"

text \<open>
  What a statement does when the engine runs it: the connection afterwards, and the
  exception it raises, if any. \<open>BEGIN\<close> inside a transaction, and \<open>COMMIT\<close> or \<open>ROLLBACK\<close>
  outside one, are errors of SQLite. A \<open>SELECT\<close> changes nothing; its rows are read by
  \<open>fetchall_id_status\<close> and \<open>fetchone_status\<close> below. An \<open>IN\<close> list may be empty in SQLite.
\<close>

fun run_stmt :: "stmt \<Rightarrow> conn \<Rightarrow> conn \<times> exn option" where
  "run_stmt Begin c =
     (case journal c of
        None \<Rightarrow> (c\<lparr>journal := Some (rows c)\<rparr>, None)
      | Some j \<Rightarrow> (c, Some ''cannot start a transaction within a transaction''))"
| "run_stmt Rollback c =
     (case journal c of
        None \<Rightarrow> (c, Some ''cannot rollback - no transaction is active'')
      | Some j \<Rightarrow> (\<lparr>rows = j, journal = None\<rparr>, None))"
| "run_stmt Commit c =
     (case journal c of
        None \<Rightarrow> (c, Some ''cannot commit - no transaction is active'')
      | Some j \<Rightarrow> (c\<lparr>journal := None\<rparr>, None))"
| "run_stmt (SelectIdStatus ids) c = (c, None)"
| "run_stmt (SelectStatus i) c = (c, None)"
| "run_stmt (UpdateCheckout ts u e n i) c = (write_rows (set_checked_out ts u e n i) c, None)"
| "run_stmt (UpdateReturn i) c = (write_rows (set_available i) c, None)"

text \<open>
  Before a statement runs it is prepared and its parameters are bound. SQLite does not
  prepare a statement with more parameters than its limit, and the sqlite3 module does
  not bind an integer outside the signed 64 bits; the statement then raises and does
  nothing. The parameters are checked in this order. The \<open>UPDATE\<close> of lines 125 to 133
  has five parameters and the other statements one or none, so only the \<open>IN\<close> list can
  exceed the limit.
\<close>

definition int64 :: "int \<Rightarrow> bool" where
  "int64 i = (- 9223372036854775808 \<le> i \<and> i \<le> 9223372036854775807)"

definition max_variable_number :: nat where
  \<comment> \<open>SQLite's limit on the parameters of one statement, as set from version 3.32 on\<close>
  "max_variable_number = 32766"

fun bind_error :: "stmt \<Rightarrow> exn option" where
  "bind_error Begin = None"
| "bind_error Rollback = None"
| "bind_error Commit = None"
| "bind_error (SelectIdStatus ids) =
     (if max_variable_number < length ids then Some ''too many SQL variables''
      else if list_all int64 ids then None
      else Some ''Python int too large to convert to SQLite INTEGER'')"
| "bind_error (SelectStatus i) =
     (if int64 i then None else Some ''Python int too large to convert to SQLite INTEGER'')"
| "bind_error (UpdateCheckout ts u e n i) =
     (if int64 i then None else Some ''Python int too large to convert to SQLite INTEGER'')"
| "bind_error (UpdateReturn i) =
     (if int64 i then None else Some ''Python int too large to convert to SQLite INTEGER'')"

text \<open>
  Failures of the store itself (a locked or full database, an I/O error) are an input of
  the model: \<open>f k\<close> says whether the \<open>k\<close>-th statement executed during a call fails, and
  with which text. SQLite answers some failures by rolling the open transaction back by
  itself; \<open>Aborts\<close> is such a failure, \<open>Fails\<close> one that leaves the transaction as it
  was. With \<open>no_faults\<close> every statement that can be prepared and bound runs.
\<close>

datatype fault = Fails exn | Aborts exn

type_synonym faults = "nat \<Rightarrow> fault option"

definition no_faults :: faults where
  "no_faults = (\<lambda>k. None)"

definition rolled_back :: "conn \<Rightarrow> conn" where
  "rolled_back c = (case journal c of None \<Rightarrow> c | Some j \<Rightarrow> \<lparr>rows = j, journal = None\<rparr>)"

definition execute :: "faults \<Rightarrow> nat \<Rightarrow> stmt \<Rightarrow> conn \<Rightarrow> conn \<times> exn option" where
  "execute f k q c =
     (case bind_error q of
        Some x \<Rightarrow> (c, Some x)
      | None \<Rightarrow>
     (case f k of
        None \<Rightarrow> run_stmt q c
      | Some (Fails x) \<Rightarrow> (c, Some x)
      | Some (Aborts x) \<Rightarrow> (rolled_back c, Some x)))"

definition fetchall_id_status :: "conn \<Rightarrow> int list \<Rightarrow> (int \<times> string) list" where
  \<comment> \<open>the rows of \<open>SELECT id, status FROM sdcards WHERE id IN (...)\<close>\<close>
  "fetchall_id_status c card_ids =
     map (\<lambda>r. (id_col r, status r)) (filter (\<lambda>r. id_col r \<in> set card_ids) (rows c))"

definition fetchone_status :: "conn \<Rightarrow> int \<Rightarrow> string option" where
  \<comment> \<open>the first row of \<open>SELECT status FROM sdcards WHERE id = ?\<close>, or \<open>None\<close>\<close>
  "fetchone_status c card_id =
     (case filter (\<lambda>r. id_col r = card_id) (rows c) of
        [] \<Rightarrow> None
      | r # _ \<Rightarrow> Some (status r))"

section \<open>Seeding: \<open>insert_initial_data\<close>\<close>

definition next_rowid :: "sdcard list \<Rightarrow> int" where
  \<comment> \<open>the id SQLite gives a row inserted without one: 1, or one more than the largest\<close>
  "next_rowid rs = (case rs of [] \<Rightarrow> 1 | r # rest \<Rightarrow> fold max (map id_col rest) (id_col r) + 1)"

definition insert_card ::
  "string \<times> int \<times> string \<times> string \<Rightarrow> sdcard list \<Rightarrow> exn + sdcard list" where
  \<comment> \<open>the \<open>INSERT\<close> statements of lines 59, 67 and 75; \<open>card_number\<close> is \<open>UNIQUE\<close>\<close>
  "insert_card v rs =
     (case v of (cn, idx, cap, cs) \<Rightarrow>
        if cn \<in> set (map card_number rs)
        then Inl ''UNIQUE constraint failed: sdcards.card_number''
        else Inr (rs @ [\<lparr>id_col = next_rowid rs, card_number = cn, card_index = idx,
                          status = status_available, capacity = cap, checkout_date = None,
                          user_name = None, equipment = None, case_number = cs,
                          shoot_content = None\<rparr>]))"

fun insert_loop :: "(string \<times> int \<times> string \<times> string) list \<Rightarrow> sdcard list \<Rightarrow> exn + sdcard list" where
  "insert_loop [] rs = Inr rs"
| "insert_loop (v # vs) rs =
     (case insert_card v rs of Inl x \<Rightarrow> Inl x | Inr rs' \<Rightarrow> insert_loop vs rs')"

definition capacities :: "int list \<Rightarrow> string list" where
  \<comment> \<open>lines 48 to 55: a number outside all three bands appends nothing\<close>
  "capacities card_numbers =
     concat (map (\<lambda>num. if 1 \<le> num \<and> num \<le> 11 then [''32G'']
                        else if 12 \<le> num \<and> num \<le> 18 then [''64G'']
                        else if 19 \<le> num \<and> num \<le> 40 then [''128G'']
                        else []) card_numbers)"

definition insert_initial_data :: "sdcard list \<Rightarrow> exn + sdcard list" where
  \<comment> \<open>from the committed table to the committed table, or the exception that escapes\<close>
  "insert_initial_data rs =
     (if int (length rs) = 0 then
        (let card_numbers = [1..40] in
         (case insert_loop
                 (map (\<lambda>(num, capacity). (''SD1-'' @ str_int num, num, capacity, case_sd1))
                    (zip card_numbers (capacities card_numbers))) rs of
            Inl x \<Rightarrow> Inl x
          | Inr rs1 \<Rightarrow>
         (case insert_loop
                 (map (\<lambda>num. (''SD2-'' @ str_int num, num, ''64G'', case_sd2)) [1..40]) rs1 of
            Inl x \<Rightarrow> Inl x
          | Inr rs2 \<Rightarrow>
            insert_loop
              (map (\<lambda>num. (''microSD-'' @ str_int num, num, ''32G'', case_microsd)) [1..40])
              rs2)))
      else Inr rs)"

section \<open>The queries of \<open>SDCardApp\<close>\<close>

definition get_available_cards_by_case :: "conn \<Rightarrow> string \<Rightarrow> (int \<times> string \<times> string) list" where
  \<comment> \<open>columns id, card_number, capacity\<close>
  "get_available_cards_by_case c cn =
     map (\<lambda>r. (id_col r, card_number r, capacity r))
       (sort_key card_index
          (filter (\<lambda>r. case_number r = cn \<and> status r = status_available) (rows c)))"

definition get_checked_out_cards_by_case ::
  "conn \<Rightarrow> string \<Rightarrow>
   (int \<times> string \<times> string \<times> string option \<times> string option \<times> string option \<times> timestamp option) list" where
  \<comment> \<open>columns id, card_number, capacity, user_name, equipment, shoot_content, checkout_date\<close>
  "get_checked_out_cards_by_case c cn =
     map (\<lambda>r. (id_col r, card_number r, capacity r, user_name r, equipment r, shoot_content r,
               checkout_date r))
       (sort_key card_index
          (filter (\<lambda>r. case_number r = cn \<and> status r = status_checked_out) (rows c)))"

definition get_cards_by_case ::
  "conn \<Rightarrow> string \<Rightarrow>
   (string \<times> string \<times> string \<times> timestamp option \<times> string option \<times> string option \<times> string
      \<times> string option) list" where
  \<comment> \<open>columns card_number, status, capacity, checkout_date, user_name, equipment, case_number,
      shoot_content\<close>
  "get_cards_by_case c cn =
     map (\<lambda>r. (card_number r, status r, capacity r, checkout_date r, user_name r, equipment r,
               case_number r, shoot_content r))
       (sort_key card_index (filter (\<lambda>r. case_number r = cn) (rows c)))"

section \<open>The transactions of \<open>SDCardApp\<close>\<close>

text \<open>
  A call returns the connection as it leaves it, with either the pair the function returns
  (\<open>Inr\<close>) or the exception that escapes it (\<open>Inl\<close>). Statements are counted from 0 in the
  order they are executed; \<open>now k\<close> is what \<open>datetime.now()\<close> returns when statement
  \<open>k\<close> is issued. The cursor of lines 111 and 142 is created before the \<open>try\<close>; that
  is taken to succeed, as the program never closes the connection.
\<close>

type_synonym outcome = "exn + bool \<times> string"

definition except_handler :: "faults \<Rightarrow> nat \<Rightarrow> conn \<Rightarrow> exn \<Rightarrow> conn \<times> outcome" where
  \<comment> \<open>lines 137 to 139 and 164 to 166: the \<open>ROLLBACK\<close> is executed outside any \<open>try\<close>\<close>
  "except_handler f k c x =
     (case execute f k Rollback c of
        (c', Some x') \<Rightarrow> (c', Inl x')
      | (c', None) \<Rightarrow> (c', Inr (False, msg_error_prefix @ x)))"

fun update_loop ::
  "faults \<Rightarrow> (nat \<Rightarrow> timestamp) \<Rightarrow> string option \<Rightarrow> string option \<Rightarrow> string option \<Rightarrow>
   nat \<Rightarrow> conn \<Rightarrow> int list \<Rightarrow> nat \<times> conn \<times> exn option" where
  \<comment> \<open>lines 124 to 133; returns the number of the next statement\<close>
  "update_loop f now u e n k c [] = (k, c, None)"
| "update_loop f now u e n k c (card_id # card_ids) =
     (case execute f k (UpdateCheckout (now k) u e n card_id) c of
        (c', Some x) \<Rightarrow> (Suc k, c', Some x)
      | (c', None) \<Rightarrow> update_loop f now u e n (Suc k) c' card_ids)"

definition unavailable_cards :: "(int \<times> string) list \<Rightarrow> string list" where
  \<comment> \<open>line 119\<close>
  "unavailable_cards statuses =
     map (\<lambda>(i, s). str_int i) (filter (\<lambda>(i, s). s \<noteq> status_available) statuses)"

definition checkout_try ::
  "faults \<Rightarrow> (nat \<Rightarrow> timestamp) \<Rightarrow> conn \<Rightarrow> int list \<Rightarrow> string option \<Rightarrow> string option \<Rightarrow>
   string option \<Rightarrow> nat \<times> conn \<times> outcome" where
  \<comment> \<open>the \<open>try\<close> block, lines 113 to 136: the number of the next statement, the connection,
      and the pair returned (\<open>Inr\<close>) or the exception raised (\<open>Inl\<close>)\<close>
  "checkout_try f now c0 card_ids u e n =
     (case execute f 0 Begin c0 of
        (c1, Some x) \<Rightarrow> (1, c1, Inl x)
      | (c1, None) \<Rightarrow>
     (case execute f 1 (SelectIdStatus card_ids) c1 of
        (c2, Some x) \<Rightarrow> (2, c2, Inl x)
      | (c2, None) \<Rightarrow>
     (let unavailable = unavailable_cards (fetchall_id_status c2 card_ids) in
      if unavailable \<noteq> [] then
        (case execute f 2 Rollback c2 of
           (c3, Some x) \<Rightarrow> (3, c3, Inl x)
         | (c3, None) \<Rightarrow> (3, c3, Inr (False, msg_unavailable_prefix @ join '', '' unavailable)))
      else
        (case update_loop f now u e n 2 c2 card_ids of
           (k, c3, Some x) \<Rightarrow> (k, c3, Inl x)
         | (k, c3, None) \<Rightarrow>
        (case execute f k Commit c3 of
           (c4, Some x) \<Rightarrow> (Suc k, c4, Inl x)
         | (c4, None) \<Rightarrow> (Suc k, c4, Inr (True, msg_checkout_done)))))))"

definition checkout_cards ::
  "faults \<Rightarrow> (nat \<Rightarrow> timestamp) \<Rightarrow> conn \<Rightarrow> int list \<Rightarrow> string option \<Rightarrow> string option \<Rightarrow>
   string option \<Rightarrow> conn \<times> outcome" where
  \<comment> \<open>lines 110 to 139: the \<open>try\<close> block, and the handler when it raised\<close>
  "checkout_cards f now c0 card_ids u e n =
     (case checkout_try f now c0 card_ids u e n of
        (k, c, Inl x) \<Rightarrow> except_handler f k c x
      | (k, c, Inr res) \<Rightarrow> (c, Inr res))"

definition return_try :: "faults \<Rightarrow> conn \<Rightarrow> int \<Rightarrow> nat \<times> conn \<times> outcome" where
  \<comment> \<open>the \<open>try\<close> block, lines 144 to 163; \<open>not status\<close> holds when no row was fetched\<close>
  "return_try f c0 card_id =
     (case execute f 0 Begin c0 of
        (c1, Some x) \<Rightarrow> (1, c1, Inl x)
      | (c1, None) \<Rightarrow>
     (case execute f 1 (SelectStatus card_id) c1 of
        (c2, Some x) \<Rightarrow> (2, c2, Inl x)
      | (c2, None) \<Rightarrow>
     (let st = fetchone_status c2 card_id in
      if st = None \<or> st \<noteq> Some status_checked_out then
        (case execute f 2 Rollback c2 of
           (c3, Some x) \<Rightarrow> (3, c3, Inl x)
         | (c3, None) \<Rightarrow> (3, c3, Inr (False, msg_cannot_return)))
      else
        (case execute f 2 (UpdateReturn card_id) c2 of
           (c3, Some x) \<Rightarrow> (3, c3, Inl x)
         | (c3, None) \<Rightarrow>
        (case execute f 3 Commit c3 of
           (c4, Some x) \<Rightarrow> (4, c4, Inl x)
         | (c4, None) \<Rightarrow> (4, c4, Inr (True, msg_return_done)))))))"

definition return_card :: "faults \<Rightarrow> conn \<Rightarrow> int \<Rightarrow> conn \<times> outcome" where
  \<comment> \<open>lines 141 to 166\<close>
  "return_card f c0 card_id =
     (case return_try f c0 card_id of
        (k, c, Inl x) \<Rightarrow> except_handler f k c x
      | (k, c, Inr res) \<Rightarrow> (c, Inr res))"

section \<open>Notions used to state the properties\<close>

text \<open>
  The rows after the loop of lines 124 to 133 has run without a failure, starting with
  statement \<open>k\<close>.
\<close>

fun checkout_rows ::
  "(nat \<Rightarrow> timestamp) \<Rightarrow> string option \<Rightarrow> string option \<Rightarrow> string option \<Rightarrow>
   nat \<Rightarrow> int list \<Rightarrow> sdcard list \<Rightarrow> sdcard list" where
  "checkout_rows now u e n k [] rs = rs"
| "checkout_rows now u e n k (card_id # card_ids) rs =
     checkout_rows now u e n (Suc k) card_ids (map (set_checked_out (now k) u e n card_id) rs)"

definition checked_out_row ::
  "timestamp \<Rightarrow> string option \<Rightarrow> string option \<Rightarrow> string option \<Rightarrow> sdcard \<Rightarrow> sdcard" where
  "checked_out_row ts u e n r =
     r\<lparr>status := status_checked_out, checkout_date := Some ts, user_name := u,
       equipment := e, shoot_content := n\<rparr>"

text \<open>A batch whose statement SQLite prepares and whose ids the sqlite3 module binds.\<close>

definition bindable :: "int list \<Rightarrow> bool" where
  "bindable card_ids = (length card_ids \<le> max_variable_number \<and> list_all int64 card_ids)"

text \<open>The columns that no transaction writes.\<close>

definition frame :: "sdcard \<Rightarrow> int \<times> string \<times> int \<times> string \<times> string" where
  "frame r = (id_col r, card_number r, card_index r, capacity r, case_number r)"

text \<open>
  The seed as the specification describes it: three containers of 40 cards with indices 1
  to 40, all available and with no checkout data, the first container with the capacity
  bands 1 to 11, 12 to 18 and 19 to 40. Labels and ids are those the program produces.
\<close>

definition seed_card :: "int \<Rightarrow> string \<Rightarrow> int \<Rightarrow> string \<Rightarrow> string \<Rightarrow> sdcard" where
  "seed_card i label idx cap cs =
     \<lparr>id_col = i, card_number = label, card_index = idx, status = status_available,
      capacity = cap, checkout_date = None, user_name = None, equipment = None,
      case_number = cs, shoot_content = None\<rparr>"

definition sd1_capacity :: "int \<Rightarrow> string" where
  "sd1_capacity idx = (if idx \<le> 11 then ''32G'' else if idx \<le> 18 then ''64G'' else ''128G'')"

definition seed_table :: "sdcard list" where
  "seed_table =
     map (\<lambda>k. seed_card k (''SD1-'' @ str_int k) k (sd1_capacity k) case_sd1) [1..40] @
     map (\<lambda>k. seed_card (40 + k) (''SD2-'' @ str_int k) k ''64G'' case_sd2) [1..40] @
     map (\<lambda>k. seed_card (80 + k) (''microSD-'' @ str_int k) k ''32G'' case_microsd) [1..40]"

text \<open>The rows that a run of \<open>insert_loop\<close> appends, the first with id \<open>i\<close>.\<close>

fun new_rows :: "int \<Rightarrow> (string \<times> int \<times> string \<times> string) list \<Rightarrow> sdcard list" where
  "new_rows i [] = []"
| "new_rows i (v # vs) =
     (case v of (cn, idx, cap, cs) \<Rightarrow> seed_card i cn idx cap cs) # new_rows (i + 1) vs"

definition sd1_values :: "(string \<times> int \<times> string \<times> string) list" where
  "sd1_values = map (\<lambda>k. (''SD1-'' @ str_int k, k, sd1_capacity k, case_sd1)) [1..40]"

definition sd2_values :: "(string \<times> int \<times> string \<times> string) list" where
  "sd2_values = map (\<lambda>k. (''SD2-'' @ str_int k, k, ''64G'', case_sd2)) [1..40]"

definition microsd_values :: "(string \<times> int \<times> string \<times> string) list" where
  "microsd_values = map (\<lambda>k. (''microSD-'' @ str_int k, k, ''32G'', case_microsd)) [1..40]"

text \<open>
  A property of tables holds of a connection when it holds of the rows the connection
  sees and of the rows it would roll back to. A statement keeps a property when its
  update does.
\<close>

definition conn_inv :: "(sdcard list \<Rightarrow> bool) \<Rightarrow> conn \<Rightarrow> bool" where
  "conn_inv P c = (P (rows c) \<and> (case journal c of None \<Rightarrow> True | Some j \<Rightarrow> P j))"

definition stmt_keeps :: "(sdcard list \<Rightarrow> bool) \<Rightarrow> stmt \<Rightarrow> bool" where
  "stmt_keeps P q =
     (case q of
        UpdateCheckout ts u e n i \<Rightarrow> (\<forall>rs. P rs \<longrightarrow> P (map (set_checked_out ts u e n i) rs))
      | UpdateReturn i \<Rightarrow> (\<forall>rs. P rs \<longrightarrow> P (map (set_available i) rs))
      | _ \<Rightarrow> True)"

text \<open>A clock for the examples.\<close>

definition fixed_clock :: "nat \<Rightarrow> timestamp" where
  "fixed_clock k = ''2024-05-02 10:00:00''"

text \<open>
  A failing store for the examples: the third statement of a call, which is the first
  \<open>UPDATE\<close>, fails because the disk is full, and SQLite rolls the transaction back by
  itself.
\<close>

definition disk_full_at_update :: faults where
  "disk_full_at_update k = (if k = 2 then Some (Aborts ''database or disk is full'') else None)"

text \<open>
  The connections that the program can get to. \<open>main\<close> seeds the table when it is empty,
  on every run of the script and before anything else, and each run works on the
  committed rows; \<open>checkout_cards\<close> and \<open>return_card\<close> then run on the connection, with any
  arguments that \<open>ok\<close> admits for user name, equipment and shoot content, and with any
  failures of the store.
\<close>

inductive reachable :: "(string option \<Rightarrow> bool) \<Rightarrow> conn \<Rightarrow> bool" for ok where
  seeded: "insert_initial_data [] = Inr rs \<Longrightarrow> reachable ok (idle rs)"
| rerun: "reachable ok c \<Longrightarrow> insert_initial_data (committed c) = Inr rs \<Longrightarrow> reachable ok (idle rs)"
| checkout: "reachable ok c \<Longrightarrow> ok u \<Longrightarrow> ok e \<Longrightarrow> ok n \<Longrightarrow>
     reachable ok (fst (checkout_cards f now c card_ids u e n))"
| returned: "reachable ok c \<Longrightarrow> reachable ok (fst (return_card f c card_id))"

definition nonnull :: "string option \<Rightarrow> bool" where
  "nonnull a = (a \<noteq> None)"

definition anything :: "string option \<Rightarrow> bool" where
  "anything a = True"

text \<open>
  What is kept true of every row: a checked-out row has its four checkout columns set,
  any other row is available and has them all \<open>NULL\<close>.
\<close>

definition row_consistent :: "sdcard \<Rightarrow> bool" where
  "row_consistent r =
     (if status r = status_checked_out
      then checkout_date r \<noteq> None \<and> user_name r \<noteq> None \<and> equipment r \<noteq> None \<and>
           shoot_content r \<noteq> None
      else status r = status_available \<and> checkout_date r = None \<and> user_name r = None \<and>
           equipment r = None \<and> shoot_content r = None)"

definition rows_consistent :: "sdcard list \<Rightarrow> bool" where
  "rows_consistent rs = list_all row_consistent rs"

text \<open>What is kept true of the table: labels are unique and there are two statuses.\<close>

definition labels_unique :: "sdcard list \<Rightarrow> bool" where
  "labels_unique rs = distinct (map card_number rs)"

definition statuses_known :: "sdcard list \<Rightarrow> bool" where
  "statuses_known rs =
     list_all (\<lambda>r. status r = status_available \<or> status r = status_checked_out) rs"

definition partition_inv :: "sdcard list \<Rightarrow> bool" where
  "partition_inv rs = (labels_unique rs \<and> statuses_known rs)"

section \<open>Lemmas\<close>

subsection \<open>Rows and their updates\<close>

text \<open>
  The fields of the rows that the seed and the two updates write.
\<close>

lemma status_distinct: "status_available \<noteq> status_checked_out"
  by (simp add: status_available_def status_checked_out_def)

lemma seed_card_fields:
  "id_col (seed_card i l x cap cs) = i" "card_number (seed_card i l x cap cs) = l"
  "card_index (seed_card i l x cap cs) = x" "status (seed_card i l x cap cs) = status_available"
  "capacity (seed_card i l x cap cs) = cap" "checkout_date (seed_card i l x cap cs) = None"
  "user_name (seed_card i l x cap cs) = None" "equipment (seed_card i l x cap cs) = None"
  "case_number (seed_card i l x cap cs) = cs" "shoot_content (seed_card i l x cap cs) = None"
  by (simp_all add: seed_card_def)

lemma checked_out_row_fields:
  "id_col (checked_out_row ts u e n r) = id_col r"
  "card_number (checked_out_row ts u e n r) = card_number r"
  "card_index (checked_out_row ts u e n r) = card_index r"
  "status (checked_out_row ts u e n r) = status_checked_out"
  "capacity (checked_out_row ts u e n r) = capacity r"
  "checkout_date (checked_out_row ts u e n r) = Some ts"
  "user_name (checked_out_row ts u e n r) = u" "equipment (checked_out_row ts u e n r) = e"
  "case_number (checked_out_row ts u e n r) = case_number r"
  "shoot_content (checked_out_row ts u e n r) = n"
  by (simp_all add: checked_out_row_def)

lemma set_available_fields:
  "id_col (set_available i r) = id_col r"
  "card_number (set_available i r) = card_number r"
  "card_index (set_available i r) = card_index r"
  "capacity (set_available i r) = capacity r"
  "case_number (set_available i r) = case_number r"
  "status (set_available i r) = (if id_col r = i then status_available else status r)"
  "checkout_date (set_available i r) = (if id_col r = i then None else checkout_date r)"
  "user_name (set_available i r) = (if id_col r = i then None else user_name r)"
  "equipment (set_available i r) = (if id_col r = i then None else equipment r)"
  "shoot_content (set_available i r) = (if id_col r = i then None else shoot_content r)"
  by (simp_all add: set_available_def)

lemma set_checked_out_fields:
  "id_col (set_checked_out ts u e n i r) = id_col r"
  "card_number (set_checked_out ts u e n i r) = card_number r"
  "card_index (set_checked_out ts u e n i r) = card_index r"
  "capacity (set_checked_out ts u e n i r) = capacity r"
  "case_number (set_checked_out ts u e n i r) = case_number r"
  "status (set_checked_out ts u e n i r) = (if id_col r = i then status_checked_out else status r)"
  "checkout_date (set_checked_out ts u e n i r) = (if id_col r = i then Some ts else checkout_date r)"
  "user_name (set_checked_out ts u e n i r) = (if id_col r = i then u else user_name r)"
  "equipment (set_checked_out ts u e n i r) = (if id_col r = i then e else equipment r)"
  "shoot_content (set_checked_out ts u e n i r) = (if id_col r = i then n else shoot_content r)"
  by (simp_all add: set_checked_out_def)

lemma set_checked_out_other: "id_col r \<noteq> i \<Longrightarrow> set_checked_out ts u e n i r = r"
  by (simp add: set_checked_out_def)

lemma set_checked_out_same:
  "id_col r = i \<Longrightarrow> set_checked_out ts u e n i r = checked_out_row ts u e n r"
  by (simp add: set_checked_out_def checked_out_row_def)

lemma set_checked_out_absent:
  assumes "i \<notin> id_col ` set rs"
  shows "map (set_checked_out ts u e n i) rs = rs"
proof -
  have "map (set_checked_out ts u e n i) rs = map (\<lambda>r. r) rs"
    using assms by (intro map_cong refl set_checked_out_other) auto
  then show ?thesis by simp
qed

lemma id_col_set_available_row: "id_col (set_available i r) = id_col r"
  by (simp add: set_available_def)

lemma status_set_available_row:
  "status (set_available i r) = (if id_col r = i then status_available else status r)"
  by (simp add: set_available_def)

lemma id_col_set_available: "map id_col (map (set_available i) rs) = map id_col rs"
  by (simp add: id_col_set_available_row)

lemma no_checked_out_after_return:
  "\<not> (\<exists>r \<in> set (map (set_available i) rs). id_col r = i \<and> status r = status_checked_out)"
  using status_distinct
  by (auto simp: id_col_set_available_row status_set_available_row)

lemma join_contains: "x \<in> set xs \<Longrightarrow> \<exists>a b. join sep xs = a @ x @ b"
proof (induction sep xs rule: join.induct)
  case (1 sep)
  then show ?case by simp
next
  case (2 sep y)
  then have "join sep [y] = [] @ x @ []" by simp
  then show ?case by blast
next
  case (3 sep y z zs)
  show ?case
  proof (cases "x = y")
    case True
    then have "join sep (y # z # zs) = [] @ x @ (sep @ join sep (z # zs))" by simp
    then show ?thesis by blast
  next
    case False
    with "3.prems" have "x \<in> set (z # zs)" by simp
    with "3.IH" obtain a b where "join sep (z # zs) = a @ x @ b" by blast
    then have "join sep (y # z # zs) = (y @ sep @ a) @ x @ b" by simp
    then show ?thesis by blast
  qed
qed

lemma str_int_digits: "str_int 1 = ''1''" "str_int 2 = ''2''" "str_int 3 = ''3''"
  by code_simp+

lemma checkout_rows_map:
  "\<exists>ts. checkout_rows now u e n k card_ids rs =
     map (\<lambda>r. if id_col r \<in> set card_ids then checked_out_row (ts (id_col r)) u e n r else r) rs"
proof (induction card_ids arbitrary: k rs)
  case Nil
  then show ?case by simp
next
  case (Cons i card_ids)
  from Cons.IH [of "Suc k" "map (set_checked_out (now k) u e n i) rs"]
  obtain ts where ih: "checkout_rows now u e n (Suc k) card_ids (map (set_checked_out (now k) u e n i) rs) =
     map (\<lambda>r. if id_col r \<in> set card_ids then checked_out_row (ts (id_col r)) u e n r else r)
       (map (set_checked_out (now k) u e n i) rs)"
    by blast
  let ?ts = "\<lambda>j. if j \<in> set card_ids then ts j else now k"
  have "checkout_rows now u e n k (i # card_ids) rs =
     map (\<lambda>r. if id_col r \<in> set (i # card_ids) then checked_out_row (?ts (id_col r)) u e n r else r) rs"
    by (simp add: ih set_checked_out_def checked_out_row_def)
  then show ?case by (rule exI [of _ ?ts])
qed

lemma checkout_rows_one:
  "checkout_rows now u e n k [i] rs = map (set_checked_out (now k) u e n i) rs"
  by simp

lemma frame_checkout_rows: "map frame (checkout_rows now u e n k card_ids rs) = map frame rs"
proof -
  obtain ts where "checkout_rows now u e n k card_ids rs =
     map (\<lambda>r. if id_col r \<in> set card_ids then checked_out_row (ts (id_col r)) u e n r else r) rs"
    using checkout_rows_map by blast
  then show ?thesis by (simp add: frame_def checked_out_row_def)
qed

lemma frame_set_available: "map frame (map (set_available i) rs) = map frame rs"
  by (simp add: frame_def set_available_def)

lemma id_col_frame: "map id_col rs = map fst (map frame rs)"
  by (simp add: frame_def)


subsection \<open>The transactions on a working store\<close>

text \<open>
  With no failure of the store, and started outside a transaction, each call is a case
  distinction on whether its parameters can be bound and on what the query returns.
\<close>

lemma committed_idle: "committed (idle rs) = rs"
  by (simp add: committed_def idle_def)

lemma rows_idle: "rows (idle rs) = rs"
  by (simp add: idle_def)

lemma execute_no_faults:
  "execute no_faults k q c =
     (case bind_error q of Some x \<Rightarrow> (c, Some x) | None \<Rightarrow> run_stmt q c)"
  by (simp add: execute_def no_faults_def split: option.splits)

lemma bindable_simps:
  "bindable []" "bindable [1]" "bindable [1, 121]"
  by (simp_all add: bindable_def int64_def max_variable_number_def)

lemma bind_error_bindable: "bindable card_ids \<Longrightarrow> bind_error (SelectIdStatus card_ids) = None"
  by (simp add: bindable_def)

lemma bind_error_unbindable:
  "\<not> bindable card_ids \<Longrightarrow>
     bind_error (SelectIdStatus card_ids) =
       Some (if max_variable_number < length card_ids then ''too many SQL variables''
             else ''Python int too large to convert to SQLite INTEGER'')"
  by (auto simp: bindable_def)

lemma update_loop_no_faults:
  "list_all int64 card_ids \<Longrightarrow>
   update_loop no_faults now u e n k \<lparr>rows = rs, journal = Some j\<rparr> card_ids =
     (k + length card_ids, \<lparr>rows = checkout_rows now u e n k card_ids rs, journal = Some j\<rparr>, None)"
  by (induction card_ids arbitrary: k rs) (simp_all add: execute_no_faults write_rows_def)

lemma checkout_cards_no_faults:
  "bindable card_ids \<Longrightarrow>
   checkout_cards no_faults now (idle rs) card_ids u e n =
     (if unavailable_cards (fetchall_id_status (idle rs) card_ids) \<noteq> []
      then (idle rs, Inr (False, msg_unavailable_prefix @
              join '', '' (unavailable_cards (fetchall_id_status (idle rs) card_ids))))
      else (idle (checkout_rows now u e n 2 card_ids rs), Inr (True, msg_checkout_done)))"
  by (simp add: checkout_cards_def checkout_try_def execute_no_faults idle_def
      update_loop_no_faults fetchall_id_status_def Let_def bind_error_bindable)
    (simp add: bindable_def)

lemma checkout_cards_unbindable:
  "\<not> bindable card_ids \<Longrightarrow>
   checkout_cards no_faults now (idle rs) card_ids u e n =
     (idle rs, Inr (False, msg_error_prefix @
        (if max_variable_number < length card_ids then ''too many SQL variables''
         else ''Python int too large to convert to SQLite INTEGER'')))"
  by (simp add: checkout_cards_def checkout_try_def execute_no_faults idle_def
      except_handler_def bind_error_unbindable del: bind_error.simps(4))

lemma return_card_no_faults:
  "return_card no_faults (idle rs) card_id =
     (if int64 card_id
      then if fetchone_status (idle rs) card_id = Some status_checked_out
           then (idle (map (set_available card_id) rs), Inr (True, msg_return_done))
           else (idle rs, Inr (False, msg_cannot_return))
      else (idle rs, Inr (False, msg_error_prefix @
              ''Python int too large to convert to SQLite INTEGER'')))"
  by (auto simp add: return_card_def return_try_def execute_no_faults idle_def fetchone_status_def
      Let_def write_rows_def except_handler_def)

lemma unavailable_cards_eq:
  "unavailable_cards (fetchall_id_status c card_ids) =
     map str_int (map id_col (filter (\<lambda>r. id_col r \<in> set card_ids \<and> status r \<noteq> status_available) (rows c)))"
  by (induction "rows c" arbitrary: c) (auto simp: unavailable_cards_def fetchall_id_status_def filter_map comp_def)

lemma unavailable_cards_none:
  assumes "\<And>r. r \<in> set rs \<Longrightarrow> id_col r \<in> set card_ids \<Longrightarrow> status r = status_available"
  shows "unavailable_cards (fetchall_id_status (idle rs) card_ids) = []"
  using assms by (simp add: unavailable_cards_eq rows_idle filter_empty_conv)

lemma fetchall_rows_only:
  "fetchall_id_status \<lparr>rows = rs, journal = j\<rparr> card_ids = fetchall_id_status (idle rs) card_ids"
  by (simp add: fetchall_id_status_def idle_def)

lemma fetchone_rows_only:
  "fetchone_status \<lparr>rows = rs, journal = j\<rparr> card_id = fetchone_status (idle rs) card_id"
  by (simp add: fetchone_status_def idle_def)

lemma fetchone_status_Some:
  "fetchone_status (idle rs) i = Some s \<Longrightarrow> \<exists>r \<in> set rs. id_col r = i \<and> status r = s"
proof -
  assume a: "fetchone_status (idle rs) i = Some s"
  then obtain r rest where f: "filter (\<lambda>r. id_col r = i) rs = r # rest" and s: "status r = s"
    by (auto simp: fetchone_status_def idle_def split: list.splits)
  from f have "r \<in> set (filter (\<lambda>r. id_col r = i) rs)" by simp
  with s show ?thesis by auto
qed

lemma filter_key_distinct:
  "distinct (map f xs) \<Longrightarrow> x \<in> set xs \<Longrightarrow> filter (\<lambda>y. f y = f x) xs = [x]"
  by (induction xs) (auto simp: filter_empty_conv image_iff)

lemma fetchone_status_distinct:
  assumes "distinct (map id_col rs)" and "r \<in> set rs" and "id_col r = i"
  shows "fetchone_status (idle rs) i = Some (status r)"
  using filter_key_distinct [OF assms(1,2)] assms(3)
  by (simp add: fetchone_status_def idle_def)

lemma fetchone_status_iff:
  assumes "distinct (map id_col rs)"
  shows "fetchone_status (idle rs) i = Some s \<longleftrightarrow> (\<exists>r \<in> set rs. id_col r = i \<and> status r = s)"
  using fetchone_status_Some [of rs i s] fetchone_status_distinct [OF assms] by blast


subsection \<open>The transactions on a failing store\<close>

text \<open>
  A statement runs, fails, or fails with the transaction rolled back. After a failure
  inside a transaction begun on the rows \<open>rs\<close>, the connection still holds
  \<open>rs\<close> to roll back to, or is back on \<open>rs\<close> already; the
  handler then either restores \<open>rs\<close> or raises.
\<close>

lemma execute_cases:
  obtains (ran) "execute f k q c = run_stmt q c"
  | (failed) x where "execute f k q c = (c, Some x)"
  | (aborted) x where "execute f k q c = (rolled_back c, Some x)"
proof (cases "bind_error q")
  case (Some x)
  then show ?thesis by (intro failed [of x]) (simp add: execute_def)
next
  case None
  note bound = None
  show ?thesis
  proof (cases "f k")
    case None
    with bound show ?thesis by (intro ran) (simp add: execute_def)
  next
    case (Some a)
    then show ?thesis
    proof (cases a)
      case (Fails x)
      with Some bound show ?thesis by (intro failed [of x]) (simp add: execute_def)
    next
      case (Aborts x)
      with Some bound show ?thesis by (intro aborted [of x]) (simp add: execute_def)
    qed
  qed
qed

lemma rolled_back_open: "rolled_back \<lparr>rows = rs, journal = Some j\<rparr> = idle j"
  by (simp add: rolled_back_def idle_def)

lemma rolled_back_idle: "rolled_back (idle rs) = idle rs"
  by (simp add: rolled_back_def idle_def)

lemma update_loop_faults:
  assumes "update_loop f now u e n k \<lparr>rows = rs, journal = Some j\<rparr> card_ids = (k', c', r)"
  shows "(r = None \<and> k' = k + length card_ids \<and>
          c' = \<lparr>rows = checkout_rows now u e n k card_ids rs, journal = Some j\<rparr>) \<or>
         (r \<noteq> None \<and> (journal c' = Some j \<or> c' = idle j))"
  using assms
proof (induction card_ids arbitrary: k rs)
  case Nil
  then show ?case by simp
next
  case (Cons i card_ids)
  let ?c = "\<lparr>rows = rs, journal = Some j\<rparr>"
  show ?case
  proof (cases rule: execute_cases [of f k "UpdateCheckout (now k) u e n i" ?c])
    case ran
    with Cons.prems have
      "update_loop f now u e n (Suc k)
         \<lparr>rows = map (set_checked_out (now k) u e n i) rs, journal = Some j\<rparr> card_ids = (k', c', r)"
      by (simp add: write_rows_def)
    from Cons.IH [OF this] show ?thesis by simp
  next
    case (failed x)
    with Cons.prems show ?thesis by auto
  next
    case (aborted x)
    with Cons.prems show ?thesis by (auto simp: rolled_back_open)
  qed
qed

lemma except_handler_faults:
  assumes "journal c = Some rs \<or> c = idle rs"
    and "except_handler f k c x = (c', out)"
  shows "committed c' = rs \<and>
         ((out = Inr (False, msg_error_prefix @ x) \<and> c' = idle rs) \<or> (\<exists>x'. out = Inl x'))"
proof (cases rule: execute_cases [of f k Rollback c])
  case ran
  with assms show ?thesis
    by (auto simp: except_handler_def committed_def idle_def split: option.splits)
next
  case (failed y)
  with assms show ?thesis
    by (auto simp: except_handler_def committed_def idle_def)
next
  case (aborted y)
  with assms show ?thesis
    by (auto simp: except_handler_def committed_def idle_def rolled_back_def)
qed

lemma checkout_try_faults:
  assumes "checkout_try f now (idle rs) card_ids u e n = (k, c, out)"
  shows "(unavailable_cards (fetchall_id_status (idle rs) card_ids) = [] \<and>
          out = Inr (True, msg_checkout_done) \<and>
          c = idle (checkout_rows now u e n 2 card_ids rs)) \<or>
         (unavailable_cards (fetchall_id_status (idle rs) card_ids) \<noteq> [] \<and>
          out = Inr (False, msg_unavailable_prefix @
                  join '', '' (unavailable_cards (fetchall_id_status (idle rs) card_ids))) \<and>
          c = idle rs) \<or>
         (\<exists>x. out = Inl x \<and> (journal c = Some rs \<or> c = idle rs))"
proof -
  let ?c1 = "\<lparr>rows = rs, journal = Some rs\<rparr>"
  let ?U = "unavailable_cards (fetchall_id_status (idle rs) card_ids)"
  show ?thesis
  proof (cases rule: execute_cases [of f 0 Begin "idle rs"])
    case (failed x)
    with assms show ?thesis by (auto simp add: checkout_try_def)
  next
    case (aborted x)
    with assms show ?thesis by (auto simp add: checkout_try_def rolled_back_idle)
  next
    case ran
    then have b: "execute f 0 Begin (idle rs) = (?c1, None)"
      by (simp add: idle_def)
    show ?thesis
    proof (cases rule: execute_cases [of f 1 "SelectIdStatus card_ids" ?c1])
      case (failed x)
      with assms b show ?thesis by (auto simp add: checkout_try_def)
    next
      case (aborted x)
      with assms b show ?thesis by (auto simp add: checkout_try_def rolled_back_open)
    next
      case ran
      then have s: "execute f 1 (SelectIdStatus card_ids) ?c1 = (?c1, None)"
        by simp
      show ?thesis
      proof (cases "?U = []")
        case False
        then have body: "(case execute f 2 Rollback ?c1 of
             (c3, Some x) \<Rightarrow> (3, c3, Inl x)
           | (c3, None) \<Rightarrow> (3, c3, Inr (False, msg_unavailable_prefix @ join '', '' ?U))) = (k, c, out)"
          using assms b s by (simp add: checkout_try_def fetchall_rows_only Let_def)
        show ?thesis
        proof (cases rule: execute_cases [of f 2 Rollback ?c1])
          case ran
          with body False show ?thesis by (auto simp: idle_def)
        next
          case (failed x)
          with body show ?thesis by auto
        next
          case (aborted x)
          with body show ?thesis by (auto simp: rolled_back_open)
        qed
      next
        case True
        obtain k3 c3 r where loop: "update_loop f now u e n 2 ?c1 card_ids = (k3, c3, r)"
          by (cases "update_loop f now u e n 2 ?c1 card_ids") auto
        from True have body: "(case r of
             Some x \<Rightarrow> (k3, c3, Inl x)
           | None \<Rightarrow> (case execute f k3 Commit c3 of
                (c4, Some x) \<Rightarrow> (Suc k3, c4, Inl x)
              | (c4, None) \<Rightarrow> (Suc k3, c4, Inr (True, msg_checkout_done)))) = (k, c, out)"
          using assms b s loop by (simp add: checkout_try_def fetchall_rows_only Let_def)
        from update_loop_faults [OF loop] show ?thesis
        proof
          assume "r \<noteq> None \<and> (journal c3 = Some rs \<or> c3 = idle rs)"
          with body show ?thesis by auto
        next
          assume ok: "r = None \<and> k3 = 2 + length card_ids \<and>
            c3 = \<lparr>rows = checkout_rows now u e n 2 card_ids rs, journal = Some rs\<rparr>"
          show ?thesis
          proof (cases rule: execute_cases [of f k3 Commit c3])
            case ran
            with body ok True show ?thesis by (auto simp: idle_def)
          next
            case (failed x)
            with body ok show ?thesis by auto
          next
            case (aborted x)
            with body ok show ?thesis by (auto simp: rolled_back_open)
          qed
        qed
      qed
    qed
  qed
qed

lemma return_try_faults:
  assumes "return_try f (idle rs) card_id = (k, c, out)"
  shows "(fetchone_status (idle rs) card_id = Some status_checked_out \<and>
          out = Inr (True, msg_return_done) \<and>
          c = idle (map (set_available card_id) rs)) \<or>
         (fetchone_status (idle rs) card_id \<noteq> Some status_checked_out \<and>
          out = Inr (False, msg_cannot_return) \<and> c = idle rs) \<or>
         (\<exists>x. out = Inl x \<and> (journal c = Some rs \<or> c = idle rs))"
proof -
  let ?c1 = "\<lparr>rows = rs, journal = Some rs\<rparr>"
  let ?c2 = "\<lparr>rows = map (set_available card_id) rs, journal = Some rs\<rparr>"
  show ?thesis
  proof (cases rule: execute_cases [of f 0 Begin "idle rs"])
    case (failed x)
    with assms show ?thesis by (auto simp add: return_try_def)
  next
    case (aborted x)
    with assms show ?thesis by (auto simp add: return_try_def rolled_back_idle)
  next
    case ran
    then have b: "execute f 0 Begin (idle rs) = (?c1, None)"
      by (simp add: idle_def)
    show ?thesis
    proof (cases rule: execute_cases [of f 1 "SelectStatus card_id" ?c1])
      case (failed x)
      with assms b show ?thesis by (auto simp add: return_try_def)
    next
      case (aborted x)
      with assms b show ?thesis by (auto simp add: return_try_def rolled_back_open)
    next
      case ran
      then have s: "execute f 1 (SelectStatus card_id) ?c1 = (?c1, None)"
        by simp
      show ?thesis
      proof (cases "fetchone_status (idle rs) card_id = Some status_checked_out")
        case False
        then have body: "(case execute f 2 Rollback ?c1 of
             (c3, Some x) \<Rightarrow> (3, c3, Inl x)
           | (c3, None) \<Rightarrow> (3, c3, Inr (False, msg_cannot_return))) = (k, c, out)"
          using assms b s by (auto simp add: return_try_def fetchone_rows_only Let_def)
        show ?thesis
        proof (cases rule: execute_cases [of f 2 Rollback ?c1])
          case ran
          with body False show ?thesis by (auto simp: idle_def)
        next
          case (failed x)
          with body show ?thesis by auto
        next
          case (aborted x)
          with body show ?thesis by (auto simp: rolled_back_open)
        qed
      next
        case True
        then have body: "(case execute f 2 (UpdateReturn card_id) ?c1 of
             (c3, Some x) \<Rightarrow> (3, c3, Inl x)
           | (c3, None) \<Rightarrow> (case execute f 3 Commit c3 of
                (c4, Some x) \<Rightarrow> (4, c4, Inl x)
              | (c4, None) \<Rightarrow> (4, c4, Inr (True, msg_return_done)))) = (k, c, out)"
          using assms b s by (simp add: return_try_def fetchone_rows_only Let_def)
        show ?thesis
        proof (cases rule: execute_cases [of f 2 "UpdateReturn card_id" ?c1])
          case (failed x)
          with body show ?thesis by auto
        next
          case (aborted x)
          with body show ?thesis by (auto simp: rolled_back_open)
        next
          case ran
          then have w: "execute f 2 (UpdateReturn card_id) ?c1 = (?c2, None)"
            by (simp add: write_rows_def)
          show ?thesis
          proof (cases rule: execute_cases [of f 3 Commit ?c2])
            case ran
            with body w True show ?thesis by (auto simp: idle_def)
          next
            case (failed x)
            with body w show ?thesis by auto
          next
            case (aborted x)
            with body w show ?thesis by (auto simp: rolled_back_open)
          qed
        qed
      qed
    qed
  qed
qed

lemma checkout_cards_faults:
  assumes "checkout_cards f now (idle rs) card_ids u e n = (c', out)"
  shows "(unavailable_cards (fetchall_id_status (idle rs) card_ids) = [] \<and>
          out = Inr (True, msg_checkout_done) \<and>
          c' = idle (checkout_rows now u e n 2 card_ids rs)) \<or>
         (unavailable_cards (fetchall_id_status (idle rs) card_ids) \<noteq> [] \<and>
          out = Inr (False, msg_unavailable_prefix @
                  join '', '' (unavailable_cards (fetchall_id_status (idle rs) card_ids))) \<and>
          c' = idle rs) \<or>
         (committed c' = rs \<and>
          ((\<exists>x. out = Inr (False, msg_error_prefix @ x) \<and> c' = idle rs) \<or> (\<exists>x'. out = Inl x')))"
proof -
  obtain k c o1 where t: "checkout_try f now (idle rs) card_ids u e n = (k, c, o1)"
    by (cases "checkout_try f now (idle rs) card_ids u e n") auto
  show ?thesis
  proof (cases o1)
    case (Inr res)
    with t assms have "c' = c" "out = o1" by (simp_all add: checkout_cards_def)
    with checkout_try_faults [OF t] Inr show ?thesis by auto
  next
    case (Inl x)
    with t assms have h: "except_handler f k c x = (c', out)"
      by (simp add: checkout_cards_def)
    from checkout_try_faults [OF t] Inl have "journal c = Some rs \<or> c = idle rs" by auto
    from except_handler_faults [OF this h] show ?thesis by blast
  qed
qed

lemma return_card_faults:
  assumes "return_card f (idle rs) card_id = (c', out)"
  shows "(fetchone_status (idle rs) card_id = Some status_checked_out \<and>
          out = Inr (True, msg_return_done) \<and>
          c' = idle (map (set_available card_id) rs)) \<or>
         (fetchone_status (idle rs) card_id \<noteq> Some status_checked_out \<and>
          out = Inr (False, msg_cannot_return) \<and> c' = idle rs) \<or>
         (committed c' = rs \<and>
          ((\<exists>x. out = Inr (False, msg_error_prefix @ x) \<and> c' = idle rs) \<or> (\<exists>x'. out = Inl x')))"
proof -
  obtain k c o1 where t: "return_try f (idle rs) card_id = (k, c, o1)"
    by (cases "return_try f (idle rs) card_id") auto
  show ?thesis
  proof (cases o1)
    case (Inr res)
    with t assms have "c' = c" "out = o1" by (simp_all add: return_card_def)
    with return_try_faults [OF t] Inr show ?thesis by auto
  next
    case (Inl x)
    with t assms have h: "except_handler f k c x = (c', out)"
      by (simp add: return_card_def)
    from return_try_faults [OF t] Inl have "journal c = Some rs \<or> c = idle rs" by auto
    from except_handler_faults [OF this h] show ?thesis by blast
  qed
qed

lemma successful_checkout:
  assumes "checkout_cards f now (idle rs) card_ids u e n = (c', Inr (True, m))"
  shows "c' = idle (checkout_rows now u e n 2 card_ids rs)"
  using checkout_cards_faults [OF assms] by auto

lemma successful_return:
  assumes "return_card f (idle rs) card_id = (c', Inr (True, m))"
  shows "c' = idle (map (set_available card_id) rs)"
  using return_card_faults [OF assms] by auto

subsection \<open>Properties that every statement keeps\<close>

text \<open>
  A property of tables that both updates keep holds of the connection after any call,
  whatever fails.
\<close>

lemma conn_inv_idle: "conn_inv P (idle rs) = P rs"
  by (simp add: conn_inv_def idle_def)

lemma conn_inv_committed: "conn_inv P c \<Longrightarrow> P (committed c)"
  by (auto simp: conn_inv_def committed_def split: option.splits)

lemma conn_inv_rows: "conn_inv P c \<Longrightarrow> P (rows c)"
  by (simp add: conn_inv_def)

lemma conn_inv_rolled_back: "conn_inv P c \<Longrightarrow> conn_inv P (rolled_back c)"
  by (auto simp: conn_inv_def rolled_back_def split: option.splits)

lemma run_stmt_inv: "conn_inv P c \<Longrightarrow> stmt_keeps P q \<Longrightarrow> conn_inv P (fst (run_stmt q c))"
  by (cases q) (auto simp: conn_inv_def stmt_keeps_def write_rows_def split: option.splits)

lemma execute_inv:
  assumes "conn_inv P c" and "stmt_keeps P q" and "execute f k q c = (c', r)"
  shows "conn_inv P c'"
proof (cases rule: execute_cases [of f k q c])
  case ran
  with run_stmt_inv [OF assms(1,2)] assms(3) show ?thesis by simp
next
  case (failed x)
  with assms show ?thesis by simp
next
  case (aborted x)
  with conn_inv_rolled_back [OF assms(1)] assms(3) show ?thesis by simp
qed

lemma update_loop_inv:
  assumes "conn_inv P c"
    and "\<And>ts i. stmt_keeps P (UpdateCheckout ts u e n i)"
    and "update_loop f now u e n k c card_ids = (k', c', r)"
  shows "conn_inv P c'"
  using assms(1,3)
proof (induction card_ids arbitrary: k c)
  case Nil
  then show ?case by simp
next
  case (Cons i card_ids)
  obtain c1 r1 where ex: "execute f k (UpdateCheckout (now k) u e n i) c = (c1, r1)"
    by (cases "execute f k (UpdateCheckout (now k) u e n i) c") auto
  have inv1: "conn_inv P c1"
    using execute_inv [OF Cons.prems(1) assms(2) ex] .
  show ?case
  proof (cases r1)
    case None
    with Cons.prems(2) ex have "update_loop f now u e n (Suc k) c1 card_ids = (k', c', r)"
      by simp
    from Cons.IH [OF inv1 this] show ?thesis .
  next
    case (Some x)
    with Cons.prems(2) ex inv1 show ?thesis by auto
  qed
qed

lemma except_handler_inv:
  assumes "conn_inv P c" and "except_handler f k c x = (c', out)"
  shows "conn_inv P c'"
proof -
  obtain c1 r1 where ex: "execute f k Rollback c = (c1, r1)"
    by (cases "execute f k Rollback c") auto
  have "stmt_keeps P Rollback" by (simp add: stmt_keeps_def)
  from execute_inv [OF assms(1) this ex] have "conn_inv P c1" .
  with assms(2) ex show ?thesis
    by (cases r1) (auto simp: except_handler_def)
qed

lemma checkout_try_inv:
  assumes "conn_inv P c0"
    and "\<And>ts i. stmt_keeps P (UpdateCheckout ts u e n i)"
    and "checkout_try f now c0 card_ids u e n = (k, c, out)"
  shows "conn_inv P c"
proof -
  obtain c1 r1 where e1: "execute f 0 Begin c0 = (c1, r1)"
    by (cases "execute f 0 Begin c0") auto
  have i1: "conn_inv P c1"
    using execute_inv [OF assms(1) _ e1] by (simp add: stmt_keeps_def)
  obtain c2 r2 where e2: "execute f 1 (SelectIdStatus card_ids) c1 = (c2, r2)"
    by (cases "execute f 1 (SelectIdStatus card_ids) c1") auto
  have i2: "conn_inv P c2"
    using execute_inv [OF i1 _ e2] by (simp add: stmt_keeps_def)
  obtain c3 r3 where e3: "execute f 2 Rollback c2 = (c3, r3)"
    by (cases "execute f 2 Rollback c2") auto
  have i3: "conn_inv P c3"
    using execute_inv [OF i2 _ e3] by (simp add: stmt_keeps_def)
  obtain k4 c4 r4 where e4: "update_loop f now u e n 2 c2 card_ids = (k4, c4, r4)"
    by (cases "update_loop f now u e n 2 c2 card_ids") auto
  have i4: "conn_inv P c4"
    using update_loop_inv [OF i2 assms(2) e4] .
  obtain c5 r5 where e5: "execute f k4 Commit c4 = (c5, r5)"
    by (cases "execute f k4 Commit c4") auto
  have i5: "conn_inv P c5"
    using execute_inv [OF i4 _ e5] by (simp add: stmt_keeps_def)
  from assms(3) e1 e2 e3 e4 e5 have "c \<in> {c1, c2, c3, c4, c5}"
    by (auto simp: checkout_try_def Let_def split: option.splits if_splits)
  with i1 i2 i3 i4 i5 show ?thesis by auto
qed

lemma checkout_cards_inv:
  assumes "conn_inv P c0"
    and "\<And>ts i. stmt_keeps P (UpdateCheckout ts u e n i)"
  shows "conn_inv P (fst (checkout_cards f now c0 card_ids u e n))"
proof -
  obtain k c out where t: "checkout_try f now c0 card_ids u e n = (k, c, out)"
    by (cases "checkout_try f now c0 card_ids u e n") auto
  have i: "conn_inv P c"
    using checkout_try_inv [OF assms t] .
  show ?thesis
  proof (cases out)
    case (Inl x)
    obtain c' out' where h: "except_handler f k c x = (c', out')"
      by (cases "except_handler f k c x") auto
    from except_handler_inv [OF i h] t Inl h show ?thesis
      by (simp add: checkout_cards_def)
  next
    case (Inr res)
    with t i show ?thesis by (simp add: checkout_cards_def)
  qed
qed

lemma return_try_inv:
  assumes "conn_inv P c0"
    and "stmt_keeps P (UpdateReturn card_id)"
    and "return_try f c0 card_id = (k, c, out)"
  shows "conn_inv P c"
proof -
  obtain c1 r1 where e1: "execute f 0 Begin c0 = (c1, r1)"
    by (cases "execute f 0 Begin c0") auto
  have i1: "conn_inv P c1"
    using execute_inv [OF assms(1) _ e1] by (simp add: stmt_keeps_def)
  obtain c2 r2 where e2: "execute f 1 (SelectStatus card_id) c1 = (c2, r2)"
    by (cases "execute f 1 (SelectStatus card_id) c1") auto
  have i2: "conn_inv P c2"
    using execute_inv [OF i1 _ e2] by (simp add: stmt_keeps_def)
  obtain c3 r3 where e3: "execute f 2 Rollback c2 = (c3, r3)"
    by (cases "execute f 2 Rollback c2") auto
  have i3: "conn_inv P c3"
    using execute_inv [OF i2 _ e3] by (simp add: stmt_keeps_def)
  obtain c4 r4 where e4: "execute f 2 (UpdateReturn card_id) c2 = (c4, r4)"
    by (cases "execute f 2 (UpdateReturn card_id) c2") auto
  have i4: "conn_inv P c4"
    using execute_inv [OF i2 assms(2) e4] .
  obtain c5 r5 where e5: "execute f 3 Commit c4 = (c5, r5)"
    by (cases "execute f 3 Commit c4") auto
  have i5: "conn_inv P c5"
    using execute_inv [OF i4 _ e5] by (simp add: stmt_keeps_def)
  from assms(3) e1 e2 e3 e4 e5 have "c \<in> {c1, c2, c3, c4, c5}"
    by (auto simp: return_try_def Let_def split: option.splits if_splits)
  with i1 i2 i3 i4 i5 show ?thesis by auto
qed

lemma return_card_inv:
  assumes "conn_inv P c0"
    and "stmt_keeps P (UpdateReturn card_id)"
  shows "conn_inv P (fst (return_card f c0 card_id))"
proof -
  obtain k c out where t: "return_try f c0 card_id = (k, c, out)"
    by (cases "return_try f c0 card_id") auto
  have i: "conn_inv P c"
    using return_try_inv [OF assms t] .
  show ?thesis
  proof (cases out)
    case (Inl x)
    obtain c' out' where h: "except_handler f k c x = (c', out')"
      by (cases "except_handler f k c x") auto
    from except_handler_inv [OF i h] t Inl h show ?thesis
      by (simp add: return_card_def)
  next
    case (Inr res)
    with t i show ?thesis by (simp add: return_card_def)
  qed
qed


subsection \<open>The seeded table\<close>

text \<open>
  The loop of inserts appends rows with consecutive ids as long as the labels are new;
  the labels of the seed are.
\<close>

lemma next_rowid_snoc:
  "id_col r = next_rowid rs \<Longrightarrow> next_rowid (rs @ [r]) = next_rowid rs + 1"
proof (cases rs)
  case Nil
  assume "id_col r = next_rowid rs"
  with Nil show ?thesis by (simp add: next_rowid_def)
next
  case (Cons a as)
  assume "id_col r = next_rowid rs"
  with Cons show ?thesis
    by (simp add: next_rowid_def max_def)
qed

lemma insert_loop_new_rows:
  assumes "distinct (map fst vs)" and "fst ` set vs \<inter> card_number ` set rs = {}"
  shows "insert_loop vs rs = Inr (rs @ new_rows (next_rowid rs) vs)"
  using assms
proof (induction vs arbitrary: rs)
  case Nil
  then show ?case by simp
next
  case (Cons v vs)
  obtain cn idx cap cs where v: "v = (cn, idx, cap, cs)"
    by (cases v) auto
  let ?r = "seed_card (next_rowid rs) cn idx cap cs"
  from Cons.prems v have fresh: "cn \<notin> card_number ` set rs" by auto
  then have ins: "insert_card v rs = Inr (rs @ [?r])"
    by (simp add: insert_card_def v seed_card_def)
  have nxt: "next_rowid (rs @ [?r]) = next_rowid rs + 1"
    by (rule next_rowid_snoc) (simp add: seed_card_def)
  from Cons.prems v have d: "distinct (map fst vs)" and
    f: "fst ` set vs \<inter> card_number ` set (rs @ [?r]) = {}"
    by (auto simp: seed_card_def)
  from Cons.IH [OF d f] ins nxt show ?case
    by (simp add: v)
qed

lemma new_rows_map_upto:
  "new_rows i (map g [a..b]) =
     map (\<lambda>k. case g k of (cn, idx, cap, cs) \<Rightarrow> seed_card (i + (k - a)) cn idx cap cs) [a..b]"
proof (induction a b arbitrary: i rule: upto.induct)
  case (1 a b)
  show ?case
  proof (cases "a \<le> b")
    case True
    then have u: "[a..b] = a # [a + 1..b]" by (rule upto_rec1)
    have "new_rows (i + 1) (map g [a + 1..b]) =
        map (\<lambda>k. case g k of (cn, idx, cap, cs) \<Rightarrow> seed_card (i + 1 + (k - (a + 1))) cn idx cap cs) [a + 1..b]"
      using True by (rule "1.IH")
    then show ?thesis
      by (subst (1 2) u) (simp add: algebra_simps)
  next
    case False
    then show ?thesis by simp
  qed
qed

lemma next_rowid_new_rows:
  "next_rowid (rs @ new_rows (next_rowid rs) vs) = next_rowid rs + int (length vs)"
proof (induction vs arbitrary: rs)
  case Nil
  then show ?case by simp
next
  case (Cons v vs)
  obtain cn idx cap cs where v: "v = (cn, idx, cap, cs)"
    by (cases v) auto
  let ?r = "seed_card (next_rowid rs) cn idx cap cs"
  have nxt: "next_rowid (rs @ [?r]) = next_rowid rs + 1"
    by (rule next_rowid_snoc) (simp add: seed_card_def)
  from Cons.IH [of "rs @ [?r]"] nxt show ?case
    by (simp add: v)
qed

lemma str_int_distinct_40: "distinct (map str_int [1..40])"
  by code_simp

lemma labels_distinct: "distinct (map (\<lambda>k. p @ str_int k) [1..40])"
proof -
  have "distinct (map ((@) p) (map str_int [1..40]))"
    using str_int_distinct_40 by (simp only: distinct_map) (simp add: inj_on_def)
  then show ?thesis by (simp only: map_map comp_def)
qed

lemma capacities_in_range:
  "\<forall>k \<in> set ks. 1 \<le> k \<and> k \<le> 40 \<Longrightarrow> capacities ks = map sd1_capacity ks"
  by (induction ks) (auto simp: capacities_def sd1_capacity_def)

lemma capacities_40: "capacities [1..40] = map sd1_capacity [1..40]"
  by (rule capacities_in_range) simp

lemma zip_capacities_40:
  "zip [1..40] (capacities [1..40]) = map (\<lambda>k. (k, sd1_capacity k)) [1..40]"
  by (simp only: capacities_40 zip_map2 zip_same_conv_map map_map comp_def prod.case)

lemma length_values:
  "length sd1_values = 40" "length sd2_values = 40" "length microsd_values = 40"
  by (simp_all add: sd1_values_def sd2_values_def microsd_values_def)

lemma fst_values:
  "map fst sd1_values = map (\<lambda>k. ''SD1-'' @ str_int k) [1..40]"
  "map fst sd2_values = map (\<lambda>k. ''SD2-'' @ str_int k) [1..40]"
  "map fst microsd_values = map (\<lambda>k. ''microSD-'' @ str_int k) [1..40]"
  by (simp_all only: sd1_values_def sd2_values_def microsd_values_def map_map comp_def fst_conv)

lemma card_number_new_rows: "map card_number (new_rows i vs) = map fst vs"
  by (induction vs arbitrary: i) (auto simp: seed_card_def split: prod.splits)

lemma seed_table_new_rows:
  "seed_table = new_rows 1 sd1_values @ new_rows 41 sd2_values @ new_rows 81 microsd_values"
  by (simp add: seed_table_def sd1_values_def sd2_values_def microsd_values_def
      new_rows_map_upto algebra_simps)

lemma insert_initial_data_empty: "insert_initial_data [] = Inr seed_table"
proof -
  let ?r1 = "new_rows 1 sd1_values"
  let ?r2 = "?r1 @ new_rows 41 sd2_values"
  have n0: "next_rowid [] = 1" by (simp add: next_rowid_def)
  have l1: "insert_loop sd1_values [] = Inr ?r1"
    using insert_loop_new_rows [of sd1_values "[]"] labels_distinct [of "''SD1-''"]
    by (simp add: fst_values n0)
  have n1: "next_rowid ?r1 = 41"
    using next_rowid_new_rows [of "[]" sd1_values] by (simp add: n0 length_values)
  have "fst ` set sd2_values \<inter> card_number ` set ?r1 = {}"
    unfolding set_map [symmetric] card_number_new_rows fst_values by auto
  then have l2: "insert_loop sd2_values ?r1 = Inr ?r2"
    using insert_loop_new_rows [of sd2_values ?r1] labels_distinct [of "''SD2-''"]
    by (simp add: fst_values n1)
  have n2: "next_rowid ?r2 = 81"
    using next_rowid_new_rows [of ?r1 sd2_values] by (simp add: n1 length_values)
  have "fst ` set microsd_values \<inter> card_number ` set ?r2 = {}"
    unfolding set_map [symmetric] map_append card_number_new_rows fst_values by auto
  then have l3: "insert_loop microsd_values ?r2 = Inr (?r2 @ new_rows 81 microsd_values)"
    using insert_loop_new_rows [of microsd_values ?r2] labels_distinct [of "''microSD-''"]
    by (simp add: fst_values n2)
  have "insert_initial_data [] =
      (case insert_loop sd1_values [] of Inl x \<Rightarrow> Inl x | Inr rs1 \<Rightarrow>
        (case insert_loop sd2_values rs1 of Inl x \<Rightarrow> Inl x | Inr rs2 \<Rightarrow>
           insert_loop microsd_values rs2))"
    by (simp only: insert_initial_data_def Let_def zip_capacities_40 map_map comp_def prod.case
        sd1_values_def sd2_values_def microsd_values_def) simp
  then show ?thesis
    by (simp only: l1 l2 l3 sum.case seed_table_new_rows append_assoc)
qed

lemma insert_initial_data_nonempty: "rs \<noteq> [] \<Longrightarrow> insert_initial_data rs = Inr rs"
  by (simp add: insert_initial_data_def)

lemma seed_table_distinct: "distinct (map card_number seed_table)"
proof -
  have "map card_number seed_table =
      map (\<lambda>k. ''SD1-'' @ str_int k) [1..40] @ map (\<lambda>k. ''SD2-'' @ str_int k) [1..40] @
      map (\<lambda>k. ''microSD-'' @ str_int k) [1..40]"
    by (simp only: seed_table_new_rows map_append card_number_new_rows fst_values)
  then show ?thesis
    using labels_distinct [of "''SD1-''"] labels_distinct [of "''SD2-''"]
      labels_distinct [of "''microSD-''"]
    by (simp only: distinct_append) auto
qed

lemma str_int_1: "str_int 1 = ''1''"
  by code_simp

lemma seed_table_first: "seed_card 1 ''SD1-1'' 1 ''32G'' case_sd1 \<in> set seed_table"
proof -
  have "seed_card 1 (''SD1-'' @ str_int 1) 1 (sd1_capacity 1) case_sd1 \<in> set seed_table"
    by (simp add: seed_table_def)
  then show ?thesis by (simp add: str_int_1 sd1_capacity_def)
qed

lemma seed_table_available: "r \<in> set seed_table \<Longrightarrow> status r = status_available"
  by (auto simp: seed_table_def seed_card_fields)

lemma seed_table_no_checkout_data:
  "r \<in> set seed_table \<Longrightarrow>
     checkout_date r = None \<and> user_name r = None \<and> equipment r = None \<and> shoot_content r = None"
  by (auto simp: seed_table_def seed_card_fields)

lemma seed_table_ids: "r \<in> set seed_table \<Longrightarrow> 1 \<le> id_col r \<and> id_col r \<le> 120"
  by (auto simp: seed_table_def seed_card_fields)

lemma length_seed_table: "length seed_table = 120"
  by (simp add: seed_table_def)

lemma seed_table_ids_list: "map id_col seed_table = [1..120]"
proof -
  have "map id_col seed_table = [1..40] @ map (\<lambda>k. 40 + k) [1..40] @ map (\<lambda>k. 80 + k) [1..40]"
    by (simp add: seed_table_def seed_card_fields comp_def)
  also have "\<dots> = [1..120]"
    by code_simp
  finally show ?thesis .
qed

lemma seed_table_distinct_ids: "distinct (map id_col seed_table)"
  by (simp only: seed_table_ids_list distinct_upto)

lemma seed_table_no_121: "121 \<notin> id_col ` set seed_table"
  using seed_table_ids by fastforce

lemma case_numbers_distinct:
  "case_sd1 \<noteq> case_sd2" "case_sd1 \<noteq> case_microsd" "case_sd2 \<noteq> case_microsd"
  "case_sd2 \<noteq> case_sd1" "case_microsd \<noteq> case_sd1" "case_microsd \<noteq> case_sd2"
  by (simp_all add: case_sd1_def case_sd2_def case_microsd_def)

lemma seed_table_by_case:
  "filter (\<lambda>r. case_number r = case_sd1) seed_table =
     map (\<lambda>k. seed_card k (''SD1-'' @ str_int k) k (sd1_capacity k) case_sd1) [1..40]"
  "filter (\<lambda>r. case_number r = case_sd2) seed_table =
     map (\<lambda>k. seed_card (40 + k) (''SD2-'' @ str_int k) k ''64G'' case_sd2) [1..40]"
  "filter (\<lambda>r. case_number r = case_microsd) seed_table =
     map (\<lambda>k. seed_card (80 + k) (''microSD-'' @ str_int k) k ''32G'' case_microsd) [1..40]"
  by (simp_all add: seed_table_def filter_map comp_def seed_card_fields case_numbers_distinct)

lemma map_constant: "(\<And>x. x \<in> set xs \<Longrightarrow> f x = c) \<Longrightarrow> map f xs = replicate (length xs) c"
  by (induction xs) auto

lemma seed_table_status: "map status seed_table = replicate 120 status_available"
proof -
  have "map status seed_table = replicate (length seed_table) status_available"
    by (rule map_constant) (rule seed_table_available)
  then show ?thesis by (simp only: length_seed_table)
qed

lemma checkout_seed_table:
  "bindable card_ids \<Longrightarrow>
   checkout_cards no_faults now (idle seed_table) card_ids u e n =
     (idle (checkout_rows now u e n 2 card_ids seed_table), Inr (True, msg_checkout_done))"
  by (simp add: checkout_cards_no_faults unavailable_cards_none seed_table_available)

lemma first_card_checked_out:
  "checked_out_row (now 2) u e n (seed_card 1 ''SD1-1'' 1 ''32G'' case_sd1) \<in>
     set (checkout_rows now u e n 2 [1] seed_table)"
proof -
  let ?r = "seed_card 1 ''SD1-1'' 1 ''32G'' case_sd1"
  have "set_checked_out (now 2) u e n 1 ?r \<in> set (map (set_checked_out (now 2) u e n 1) seed_table)"
    using seed_table_first by simp
  moreover have "set_checked_out (now 2) u e n 1 ?r = checked_out_row (now 2) u e n ?r"
    by (rule set_checked_out_same) (simp add: seed_card_fields)
  ultimately show ?thesis by (simp only: checkout_rows_one)
qed

lemma first_card_status:
  "fetchone_status (idle (checkout_rows now u e n 2 [1] seed_table)) 1 = Some status_checked_out"
proof -
  let ?r = "seed_card 1 ''SD1-1'' 1 ''32G'' case_sd1"
  let ?rs1 = "checkout_rows now u e n 2 [1] seed_table"
  have "distinct (map id_col ?rs1)"
    using seed_table_distinct_ids by (simp only: id_col_frame frame_checkout_rows)
  moreover have "checked_out_row (now 2) u e n ?r \<in> set ?rs1"
    by (rule first_card_checked_out)
  ultimately have "fetchone_status (idle ?rs1) 1 =
      Some (status (checked_out_row (now 2) u e n ?r))"
    by (rule fetchone_status_distinct) (simp add: checked_out_row_fields seed_card_fields)
  then show ?thesis by (simp add: checked_out_row_fields)
qed

lemma begin_idle: "run_stmt Begin (idle rs) = (\<lparr>rows = rs, journal = Some rs\<rparr>, None)"
  by (simp add: idle_def)

lemma rollback_idle:
  "run_stmt Rollback (idle rs) = (idle rs, Some ''cannot rollback - no transaction is active'')"
  by (simp add: idle_def)

lemma unavailable_seed_table:
  "unavailable_cards (fetchall_id_status \<lparr>rows = seed_table, journal = j\<rparr> card_ids) = []"
  by (simp only: fetchall_rows_only) (simp add: unavailable_cards_none seed_table_available)

lemma checkout_try_disk_full:
  "checkout_try disk_full_at_update now (idle seed_table) [1] u e n =
     (3, idle seed_table, Inl ''database or disk is full'')"
  by (simp add: checkout_try_def execute_def disk_full_at_update_def begin_idle
      unavailable_seed_table rolled_back_open int64_def max_variable_number_def
      del: run_stmt.simps(1,2))

lemma return_try_disk_full:
  "return_try disk_full_at_update (idle (checkout_rows now u e n 2 [1] seed_table)) 1 =
     (3, idle (checkout_rows now u e n 2 [1] seed_table), Inl ''database or disk is full'')"
  by (simp add: return_try_def execute_def disk_full_at_update_def begin_idle
      fetchone_rows_only first_card_status rolled_back_open int64_def
      del: run_stmt.simps(1,2) checkout_rows.simps)

subsection \<open>The queries\<close>

text \<open>
  What the three lists hold, as sets and by label.
\<close>

lemma set_get_available:
  "set (get_available_cards_by_case c cn) =
     (\<lambda>r. (id_col r, card_number r, capacity r)) `
       {r \<in> set (rows c). case_number r = cn \<and> status r = status_available}"
  by (simp add: get_available_cards_by_case_def)

lemma set_get_checked_out:
  "set (get_checked_out_cards_by_case c cn) =
     (\<lambda>r. (id_col r, card_number r, capacity r, user_name r, equipment r, shoot_content r,
            checkout_date r)) `
       {r \<in> set (rows c). case_number r = cn \<and> status r = status_checked_out}"
  by (simp add: get_checked_out_cards_by_case_def)

lemma labels_available:
  "map (fst \<circ> snd) (get_available_cards_by_case c cn) =
     map card_number (sort_key card_index
       (filter (\<lambda>r. case_number r = cn \<and> status r = status_available) (rows c)))"
  by (simp add: get_available_cards_by_case_def comp_def)

lemma labels_checked_out:
  "map (fst \<circ> snd) (get_checked_out_cards_by_case c cn) =
     map card_number (sort_key card_index
       (filter (\<lambda>r. case_number r = cn \<and> status r = status_checked_out) (rows c)))"
  by (simp add: get_checked_out_cards_by_case_def comp_def)

lemma labels_all_with_status:
  "map fst (filter (\<lambda>t. fst (snd t) = s) (get_cards_by_case c cn)) =
     map card_number (sort_key card_index
       (filter (\<lambda>r. case_number r = cn \<and> status r = s) (rows c)))"
  by (simp add: get_cards_by_case_def filter_map comp_def filter_sort)

lemma labels_all:
  "map fst (get_cards_by_case c cn) =
     map card_number (sort_key card_index (filter (\<lambda>r. case_number r = cn) (rows c)))"
  by (simp add: get_cards_by_case_def comp_def)


subsection \<open>Reachable connections\<close>

text \<open>
  Both invariants hold of the seed and are kept by both updates, hence hold of every
  reachable connection.
\<close>

lemma reachable_inv:
  assumes "reachable ok c"
    and seed: "P seed_table"
    and co: "\<And>ts u e n i. ok u \<Longrightarrow> ok e \<Longrightarrow> ok n \<Longrightarrow> stmt_keeps P (UpdateCheckout ts u e n i)"
    and re: "\<And>i. stmt_keeps P (UpdateReturn i)"
  shows "conn_inv P c"
  using assms(1)
proof (induction rule: reachable.induct)
  case (seeded rs)
  then have "rs = seed_table" by (simp add: insert_initial_data_empty)
  with seed show ?case by (simp add: conn_inv_idle)
next
  case (rerun c rs)
  show ?case
  proof (cases "committed c = []")
    case True
    with rerun.hyps(2) have "rs = seed_table" by (simp add: insert_initial_data_empty)
    with seed show ?thesis by (simp add: conn_inv_idle)
  next
    case False
    with rerun.hyps(2) have "rs = committed c" by (simp add: insert_initial_data_nonempty)
    with conn_inv_committed [OF rerun.IH] show ?thesis by (simp add: conn_inv_idle)
  qed
next
  case (checkout c u e n f now card_ids)
  show ?case
    by (rule checkout_cards_inv [OF checkout.IH co]) (rule checkout.hyps)+
next
  case (returned c f card_id)
  show ?case
    by (rule return_card_inv [OF returned.IH re])
qed

lemma reachable_after_checkout_seed:
  "ok u \<Longrightarrow> ok e \<Longrightarrow> ok n \<Longrightarrow> bindable card_ids \<Longrightarrow>
     reachable ok (idle (checkout_rows now u e n 2 card_ids seed_table))"
proof -
  assume ok: "ok u" "ok e" "ok n" and b: "bindable card_ids"
  have "reachable ok (idle seed_table)"
    by (rule reachable.seeded) (rule insert_initial_data_empty)
  then have "reachable ok (fst (checkout_cards no_faults now (idle seed_table) card_ids u e n))"
    using ok by (rule reachable.checkout)
  then show ?thesis by (simp add: checkout_seed_table [OF b])
qed

lemma row_consistent_set_available: "row_consistent r \<Longrightarrow> row_consistent (set_available i r)"
  using status_distinct by (auto simp: row_consistent_def set_available_fields split: if_splits)

lemma row_consistent_set_checked_out:
  "row_consistent r \<Longrightarrow> u \<noteq> None \<Longrightarrow> e \<noteq> None \<Longrightarrow> n \<noteq> None \<Longrightarrow>
     row_consistent (set_checked_out ts u e n i r)"
  by (auto simp: row_consistent_def set_checked_out_fields split: if_splits)

lemma rows_consistent_keeps:
  "nonnull u \<Longrightarrow> nonnull e \<Longrightarrow> nonnull n \<Longrightarrow>
     stmt_keeps rows_consistent (UpdateCheckout ts u e n i)"
  "stmt_keeps rows_consistent (UpdateReturn i)"
  by (simp_all add: stmt_keeps_def rows_consistent_def list_all_iff nonnull_def
      row_consistent_set_checked_out row_consistent_set_available)

lemma rows_consistent_seed: "rows_consistent seed_table"
  using status_distinct
  by (auto simp: rows_consistent_def list_all_iff row_consistent_def seed_table_available
      seed_table_no_checkout_data)

lemma reachable_rows_consistent:
  "reachable nonnull c \<Longrightarrow> conn_inv rows_consistent c"
  by (rule reachable_inv [where ok = nonnull]) (simp_all add: rows_consistent_seed rows_consistent_keeps)

lemma partition_inv_keeps:
  "stmt_keeps partition_inv (UpdateCheckout ts u e n i)"
  "stmt_keeps partition_inv (UpdateReturn i)"
  by (auto simp: stmt_keeps_def partition_inv_def labels_unique_def statuses_known_def
      list_all_iff comp_def set_checked_out_fields set_available_fields)

lemma partition_inv_seed: "partition_inv seed_table"
  by (simp add: partition_inv_def labels_unique_def statuses_known_def list_all_iff
      seed_table_distinct seed_table_available)

lemma reachable_partition_inv: "reachable ok c \<Longrightarrow> conn_inv partition_inv c"
  by (rule reachable_inv [where ok = ok]) (simp_all add: partition_inv_seed partition_inv_keeps)

section \<open>The claims\<close>

text \<open>
  The transactions are considered on a connection with no transaction open, \<open>idle rs\<close>,
  which is how every run of the script finds it. A working store is \<open>no_faults\<close>: on
  it a statement raises only when it cannot be prepared or bound, or when SQLite rejects
  it for the state of the transaction. A statement about every \<open>f\<close> holds whatever
  statements fail.
\<close>

subsection \<open>Checkout is all or nothing\<close>

text \<open>
  Claim C1, as amended. Let some id of the batch be the id of a card whose status is the
  checked-out one. On a working store \<open>checkout_cards\<close> returns the connection as it was,
  with a failure pair; whatever fails, the committed rows stay as they were and success
  is never reported. When the batch can be bound, that is, when it has at most 32766 ids
  and each is within the signed 64 bits, the message of the failure pair is the text of
  line 122 followed by the ids, in the order of the table and joined by a comma and a
  blank, of exactly the cards of the batch that exist and are not available; each of
  these ids is written in the message, the id of the checked-out card among them.
\<close>

theorem checkout_cards_all_or_nothing:
  assumes "r \<in> set rs" and "id_col r \<in> set card_ids" and "status r = status_checked_out"
  shows "\<exists>named.
           named = map id_col
             (filter (\<lambda>r'. id_col r' \<in> set card_ids \<and> status r' \<noteq> status_available) rs) \<and>
           set named =
             {i \<in> set card_ids. \<exists>r' \<in> set rs. id_col r' = i \<and> status r' \<noteq> status_available} \<and>
           id_col r \<in> set named \<and>
           (bindable card_ids \<longrightarrow>
              checkout_cards no_faults now (idle rs) card_ids u e n =
                (idle rs,
                 Inr (False, msg_unavailable_prefix @ join '', '' (map str_int named))) \<and>
              (\<forall>i \<in> set named. \<exists>a b.
                 msg_unavailable_prefix @ join '', '' (map str_int named) = a @ str_int i @ b)) \<and>
           (\<exists>m. checkout_cards no_faults now (idle rs) card_ids u e n =
                  (idle rs, Inr (False, m))) \<and>
           (\<forall>f. committed (fst (checkout_cards f now (idle rs) card_ids u e n)) = rs \<and>
                (\<forall>m. snd (checkout_cards f now (idle rs) card_ids u e n) \<noteq> Inr (True, m)))"
proof -
  let ?named = "map id_col
    (filter (\<lambda>r'. id_col r' \<in> set card_ids \<and> status r' \<noteq> status_available) rs)"
  let ?msg = "msg_unavailable_prefix @ join '', '' (map str_int ?named)"
  have un: "unavailable_cards (fetchall_id_status (idle rs) card_ids) = map str_int ?named"
    by (simp add: unavailable_cards_eq idle_def)
  from assms have mem: "id_col r \<in> set ?named"
    using status_distinct by force
  then have ne: "?named \<noteq> []" by (metis empty_iff list.set(1))
  have call: "checkout_cards no_faults now (idle rs) card_ids u e n = (idle rs, Inr (False, ?msg))"
    if "bindable card_ids"
    using ne that by (simp add: checkout_cards_no_faults un)
  have written: "\<exists>a b. ?msg = a @ str_int i @ b" if "i \<in> set ?named" for i
  proof -
    from that have "str_int i \<in> str_int ` set ?named" by (rule imageI)
    then have "str_int i \<in> set (map str_int ?named)" by (simp only: set_map)
    then obtain a b where "join '', '' (map str_int ?named) = a @ str_int i @ b"
      using join_contains by blast
    then have "?msg = (msg_unavailable_prefix @ a) @ str_int i @ b" by simp
    then show ?thesis by blast
  qed
  have names: "set ?named =
      {i \<in> set card_ids. \<exists>r' \<in> set rs. id_col r' = i \<and> status r' \<noteq> status_available}"
    by auto
  have fails: "\<exists>m. checkout_cards no_faults now (idle rs) card_ids u e n = (idle rs, Inr (False, m))"
  proof (cases "bindable card_ids")
    case True
    then show ?thesis using call by blast
  next
    case False
    then show ?thesis using checkout_cards_unbindable by blast
  qed
  have faults: "committed (fst (checkout_cards f now (idle rs) card_ids u e n)) = rs \<and>
                (\<forall>m. snd (checkout_cards f now (idle rs) card_ids u e n) \<noteq> Inr (True, m))" for f
  proof -
    obtain c' out where res: "checkout_cards f now (idle rs) card_ids u e n = (c', out)"
      by (cases "checkout_cards f now (idle rs) card_ids u e n") auto
    from checkout_cards_faults [OF res] ne un show ?thesis
      by (auto simp: res committed_idle)
  qed
  from call written names mem fails faults show ?thesis by blast
qed

theorem checkout_cards_all_or_nothing_witness:
  "checkout_cards no_faults fixed_clock
     (idle [seed_card 1 ''SD1-1'' 1 ''32G'' case_sd1,
            checked_out_row ''2024-05-01 09:00:00'' (Some ''Alice'') (Some ''CamA'')
              (Some ''Interview'') (seed_card 2 ''SD1-2'' 2 ''32G'' case_sd1),
            checked_out_row ''2024-05-01 09:00:01'' (Some ''Alice'') (Some ''CamA'')
              (Some ''Interview'') (seed_card 3 ''SD1-3'' 3 ''32G'' case_sd1)])
     [1, 2, 3] (Some ''Bob'') (Some ''CamB'') (Some ''News'') =
   (idle [seed_card 1 ''SD1-1'' 1 ''32G'' case_sd1,
          checked_out_row ''2024-05-01 09:00:00'' (Some ''Alice'') (Some ''CamA'')
            (Some ''Interview'') (seed_card 2 ''SD1-2'' 2 ''32G'' case_sd1),
          checked_out_row ''2024-05-01 09:00:01'' (Some ''Alice'') (Some ''CamA'')
            (Some ''Interview'') (seed_card 3 ''SD1-3'' 3 ''32G'' case_sd1)],
    Inr (False, msg_unavailable_prefix @ ''2, 3''))"
proof -
  let ?r1 = "seed_card 1 ''SD1-1'' 1 ''32G'' case_sd1"
  let ?r2 = "checked_out_row ''2024-05-01 09:00:00'' (Some ''Alice'') (Some ''CamA'')
               (Some ''Interview'') (seed_card 2 ''SD1-2'' 2 ''32G'' case_sd1)"
  let ?r3 = "checked_out_row ''2024-05-01 09:00:01'' (Some ''Alice'') (Some ''CamA'')
               (Some ''Interview'') (seed_card 3 ''SD1-3'' 3 ''32G'' case_sd1)"
  have a: "?r2 \<in> set [?r1, ?r2, ?r3]" by simp
  have b: "id_col ?r2 \<in> set [1, 2, 3]" by (simp add: checked_out_row_fields seed_card_fields)
  have c: "status ?r2 = status_checked_out" by (simp add: checked_out_row_fields)
  have d: "bindable [1, 2, 3]"
    by (simp add: bindable_def int64_def max_variable_number_def)
  have named: "map id_col
      (filter (\<lambda>r'. id_col r' \<in> set [1, 2, 3] \<and> status r' \<noteq> status_available) [?r1, ?r2, ?r3]) =
      [2, 3]"
    using status_distinct by (simp add: checked_out_row_fields seed_card_fields)
  have joined: "join '', '' (map str_int [2, 3]) = ''2, 3''"
    by (simp add: str_int_digits)
  from checkout_cards_all_or_nothing [OF a b c, of fixed_clock
      "Some ''Bob''" "Some ''CamB''" "Some ''News''"] d
  have "checkout_cards no_faults fixed_clock (idle [?r1, ?r2, ?r3]) [1, 2, 3]
       (Some ''Bob'') (Some ''CamB'') (Some ''News'') =
     (idle [?r1, ?r2, ?r3],
      Inr (False, msg_unavailable_prefix @ join '', '' (map str_int (map id_col
        (filter (\<lambda>r'. id_col r' \<in> set [1, 2, 3] \<and> status r' \<noteq> status_available)
           [?r1, ?r2, ?r3])))))"
    by blast
  then show ?thesis by (simp only: named joined)
qed

text \<open>
  The claim as stated, for every batch, fails for one that cannot be bound. On the seeded
  table with card 1 checked out, the batch of the id 1 and of an id beyond the signed 64
  bits makes the \<open>SELECT\<close> of line 116 raise; the handler returns the message of line
  139, which names no id.
\<close>

theorem checkout_cards_unbindable_counterexample:
  "checked_out_row (fixed_clock 2) (Some ''Alice'') (Some ''CamA'') (Some ''Interview'')
     (seed_card 1 ''SD1-1'' 1 ''32G'' case_sd1) \<in>
     set (checkout_rows fixed_clock (Some ''Alice'') (Some ''CamA'') (Some ''Interview'')
            2 [1] seed_table) \<and>
   snd (checkout_cards no_faults fixed_clock
          (idle (checkout_rows fixed_clock (Some ''Alice'') (Some ''CamA'') (Some ''Interview'')
                   2 [1] seed_table))
          [1, 9223372036854775808] (Some ''Bob'') (Some ''CamB'') (Some ''News'')) =
     Inr (False, msg_error_prefix @ ''Python int too large to convert to SQLite INTEGER'')"
proof -
  have nb: "\<not> bindable [1, 9223372036854775808]"
    by (simp add: bindable_def int64_def)
  have "snd (checkout_cards no_faults fixed_clock
          (idle (checkout_rows fixed_clock (Some ''Alice'') (Some ''CamA'') (Some ''Interview'')
                   2 [1] seed_table))
          [1, 9223372036854775808] (Some ''Bob'') (Some ''CamB'') (Some ''News'')) =
     Inr (False, msg_error_prefix @ ''Python int too large to convert to SQLite INTEGER'')"
    by (simp add: checkout_cards_unbindable [OF nb] max_variable_number_def
        del: checkout_rows.simps)
  with first_card_checked_out [of fixed_clock "Some ''Alice''" "Some ''CamA''" "Some ''Interview''"]
  show ?thesis by (rule conjI)
qed

subsection \<open>An id without a card\<close>

text \<open>
  Claim C2 says that a batch with an id that no card has is rejected, with that id named.
  The program does not do so: on the seeded table the batch of the ids 1 and 121, of
  which only the first exists, is accepted. Card 1 is checked out, nothing is said about
  121, and the success pair of line 136 is returned. \<open>return_card\<close>, in line 148, does
  reject an id that no card has.
\<close>

theorem checkout_cards_missing_id:
  "checkout_cards no_faults now (idle seed_table) [1, 121] u e n =
     (idle (map (\<lambda>r. if id_col r = 1 then checked_out_row (now 2) u e n r else r) seed_table),
      Inr (True, msg_checkout_done))"
proof -
  let ?rs1 = "map (set_checked_out (now 2) u e n 1) seed_table"
  have one: "?rs1 = map (\<lambda>r. if id_col r = 1 then checked_out_row (now 2) u e n r else r) seed_table"
    by (simp add: set_checked_out_def checked_out_row_def)
  have "121 \<notin> id_col ` set ?rs1"
    using seed_table_no_121 unfolding one by (auto simp: checked_out_row_fields split: if_splits)
  then have "map (set_checked_out (now 3) u e n 121) ?rs1 = ?rs1"
    by (rule set_checked_out_absent)
  then have "checkout_rows now u e n 2 [1, 121] seed_table = ?rs1"
    by (simp only: checkout_rows.simps numeral_2_eq_2 numeral_3_eq_3)
  then show ?thesis
    by (simp only: checkout_seed_table [OF bindable_simps(3)] one)
qed

subsection \<open>Returning a card\<close>

text \<open>
  Claim C3. On a working store whose ids are unique and within the signed 64 bits (\<open>id\<close>
  is the integer primary key), \<open>return_card\<close> succeeds exactly when some card has the
  given id and the checked-out status. On success that card's status becomes the
  available status and its checkout date, user name, equipment and shoot content become
  \<open>NULL\<close>, all other rows staying as they are. Otherwise a failure pair is returned and
  the connection is unchanged; its message is the text of line 150, or that of line 166
  when the id given is beyond the signed 64 bits and the \<open>SELECT\<close> of line 146 raises.
  Hence a second return of the same card, right after a successful one, fails and leaves
  the connection as the first return left it.
\<close>

theorem return_card_exact:
  assumes "distinct (map id_col rs)" and "list_all int64 (map id_col rs)"
  shows "return_card no_faults (idle rs) i =
           (if \<exists>r \<in> set rs. id_col r = i \<and> status r = status_checked_out
            then (idle (map (\<lambda>r. if id_col r = i
                                  then r\<lparr>status := status_available, checkout_date := None,
                                         user_name := None, equipment := None,
                                         shoot_content := None\<rparr>
                                  else r) rs),
                  Inr (True, msg_return_done))
            else (idle rs,
                  Inr (False,
                       if int64 i then msg_cannot_return
                       else msg_error_prefix @
                              ''Python int too large to convert to SQLite INTEGER''))) \<and>
         ((\<exists>r \<in> set rs. id_col r = i \<and> status r = status_checked_out) \<longrightarrow>
            return_card no_faults (fst (return_card no_faults (idle rs) i)) i =
              (fst (return_card no_faults (idle rs) i), Inr (False, msg_cannot_return)))"
proof -
  let ?rs' = "map (set_available i) rs"
  let ?out = "\<exists>r \<in> set rs. id_col r = i \<and> status r = status_checked_out"
  have upd: "?rs' = map (\<lambda>r. if id_col r = i
                                  then r\<lparr>status := status_available, checkout_date := None,
                                         user_name := None, equipment := None,
                                         shoot_content := None\<rparr>
                                  else r) rs"
    by (simp add: set_available_def fun_eq_iff)
  have bound: "int64 i" if ?out
    using that assms(2) by (auto simp: list_all_iff)
  have first: "return_card no_faults (idle rs) i =
      (if ?out then (idle ?rs', Inr (True, msg_return_done))
       else (idle rs, Inr (False, if int64 i then msg_cannot_return
               else msg_error_prefix @ ''Python int too large to convert to SQLite INTEGER'')))"
  proof (cases "int64 i")
    case True
    then show ?thesis
      by (simp only: return_card_no_faults fetchone_status_iff [OF assms(1)] if_True)
  next
    case False
    with bound have "\<not> ?out" by blast
    with False show ?thesis
      by (simp only: return_card_no_faults if_False)
  qed
  have d': "distinct (map id_col ?rs')"
    using assms(1) by (simp only: id_col_set_available)
  have second: "return_card no_faults (idle ?rs') i = (idle ?rs', Inr (False, msg_cannot_return))"
    if "int64 i"
    using that
    by (simp only: return_card_no_faults fetchone_status_iff [OF d'] no_checked_out_after_return
        if_False if_True)
  from first second bound show ?thesis
    by (simp add: upd [symmetric])
qed

theorem return_card_exact_witness:
  "snd (return_card no_faults
          (idle [seed_card 1 ''SD1-1'' 1 ''32G'' case_sd1,
                 checked_out_row ''2024-05-01 09:00:00'' (Some ''Alice'') (Some ''CamA'')
                   (Some ''Interview'') (seed_card 2 ''SD1-2'' 2 ''32G'' case_sd1)]) 2) =
     Inr (True, msg_return_done) \<and>
   snd (return_card no_faults
          (fst (return_card no_faults
             (idle [seed_card 1 ''SD1-1'' 1 ''32G'' case_sd1,
                    checked_out_row ''2024-05-01 09:00:00'' (Some ''Alice'') (Some ''CamA'')
                      (Some ''Interview'') (seed_card 2 ''SD1-2'' 2 ''32G'' case_sd1)]) 2)) 2) =
     Inr (False, msg_cannot_return)"
proof -
  let ?r1 = "seed_card 1 ''SD1-1'' 1 ''32G'' case_sd1"
  let ?r2 = "checked_out_row ''2024-05-01 09:00:00'' (Some ''Alice'') (Some ''CamA'')
               (Some ''Interview'') (seed_card 2 ''SD1-2'' 2 ''32G'' case_sd1)"
  have d: "distinct (map id_col [?r1, ?r2])"
    by (simp add: seed_card_fields checked_out_row_fields)
  have b: "list_all int64 (map id_col [?r1, ?r2])"
    by (simp add: seed_card_fields checked_out_row_fields int64_def)
  have ex: "\<exists>r \<in> set [?r1, ?r2]. id_col r = 2 \<and> status r = status_checked_out"
    by (simp add: seed_card_fields checked_out_row_fields)
  note t = return_card_exact [OF d b, of 2]
  from t [THEN conjunct1] have first:
    "snd (return_card no_faults (idle [?r1, ?r2]) 2) = Inr (True, msg_return_done)"
    unfolding if_P [OF ex] by (simp only: snd_conv)
  from t [THEN conjunct2, THEN mp, OF ex] have second:
    "snd (return_card no_faults (fst (return_card no_faults (idle [?r1, ?r2]) 2)) 2) =
       Inr (False, msg_cannot_return)"
    by (simp only: snd_conv)
  from first second show ?thesis by (rule conjI)
qed

subsection \<open>Checkout, then the lists\<close>

text \<open>
  Claim C4. Let a card be available, so that it is listed by
  \<open>get_available_cards_by_case\<close> for its case. After any call of \<open>checkout_cards\<close> on a
  batch with its id that returns success, \<open>get_checked_out_cards_by_case\<close> for its case
  lists it with its id, label and capacity, with exactly the user name, equipment and
  shoot content passed to the call and with a checkout date that is not \<open>NULL\<close>, and
  \<open>get_available_cards_by_case\<close> for its case has no entry with its id.
\<close>

theorem checkout_then_list:
  assumes "r \<in> set rs" and "status r = status_available" and "id_col r \<in> set card_ids"
    and "checkout_cards f now (idle rs) card_ids u e n = (c', Inr (True, m))"
  shows "(id_col r, card_number r, capacity r) \<in>
           set (get_available_cards_by_case (idle rs) (case_number r)) \<and>
         (\<exists>ts. (id_col r, card_number r, capacity r, u, e, n, Some ts) \<in>
           set (get_checked_out_cards_by_case c' (case_number r))) \<and>
         (\<forall>t \<in> set (get_available_cards_by_case c' (case_number r)). fst t \<noteq> id_col r)"
proof -
  obtain ts where rows': "checkout_rows now u e n 2 card_ids rs =
      map (\<lambda>r. if id_col r \<in> set card_ids then checked_out_row (ts (id_col r)) u e n r else r) rs"
    using checkout_rows_map by blast
  let ?F = "\<lambda>r. if id_col r \<in> set card_ids then checked_out_row (ts (id_col r)) u e n r else r"
  have c': "rows c' = map ?F rs"
    using successful_checkout [OF assms(4)] rows' by (simp add: rows_idle)
  have before: "(id_col r, card_number r, capacity r) \<in>
      set (get_available_cards_by_case (idle rs) (case_number r))"
    unfolding set_get_available rows_idle using assms(1,2) by blast
  let ?r' = "checked_out_row (ts (id_col r)) u e n r"
  have "?r' \<in> set (rows c')"
    unfolding c' using assms(1,3) by force
  then have "(id_col ?r', card_number ?r', capacity ?r', user_name ?r', equipment ?r',
       shoot_content ?r', checkout_date ?r') \<in> set (get_checked_out_cards_by_case c' (case_number r))"
    unfolding set_get_checked_out by (intro imageI CollectI conjI) (simp_all add: checked_out_row_fields)
  then have listed: "(id_col r, card_number r, capacity r, u, e, n, Some (ts (id_col r))) \<in>
       set (get_checked_out_cards_by_case c' (case_number r))"
    by (simp only: checked_out_row_fields)
  have gone: "fst t \<noteq> id_col r" if t: "t \<in> set (get_available_cards_by_case c' (case_number r))" for t
  proof -
    from t obtain r0 where r0: "r0 \<in> set rs" and st: "status (?F r0) = status_available"
      and tt: "t = (id_col (?F r0), card_number (?F r0), capacity (?F r0))"
      unfolding set_get_available c' by auto
    from st status_distinct have "id_col r0 \<notin> set card_ids"
      by (auto simp: checked_out_row_fields split: if_splits)
    with tt assms(3) show ?thesis by auto
  qed
  from before listed gone show ?thesis by blast
qed

theorem checkout_then_list_witness:
  "\<exists>ts. (1, ''SD1-1'', ''32G'', Some ''Alice'', Some ''CamA'', Some ''Interview'', Some ts) \<in>
     set (get_checked_out_cards_by_case
            (fst (checkout_cards no_faults fixed_clock (idle seed_table) [1]
                    (Some ''Alice'') (Some ''CamA'') (Some ''Interview'')))
            case_sd1)"
proof -
  let ?r = "seed_card 1 ''SD1-1'' 1 ''32G'' case_sd1"
  let ?call = "checkout_cards no_faults fixed_clock (idle seed_table) [1]
                 (Some ''Alice'') (Some ''CamA'') (Some ''Interview'')"
  have a: "?r \<in> set seed_table" by (rule seed_table_first)
  have b: "status ?r = status_available" by (simp add: seed_card_fields)
  have c: "id_col ?r \<in> set [1]" by (simp add: seed_card_fields)
  have d: "?call = (fst ?call, Inr (True, msg_checkout_done))"
    by (simp add: checkout_seed_table bindable_simps)
  from checkout_then_list [OF a b c d] show ?thesis
    by (simp only: seed_card_fields)
qed

subsection \<open>The two lists split the full list\<close>

text \<open>
  Claim C5. In every reachable connection and for every case, the labels listed by
  \<open>get_available_cards_by_case\<close> are, in the same order, the labels of the entries of
  \<open>get_cards_by_case\<close> whose status is the available one, and those listed by
  \<open>get_checked_out_cards_by_case\<close> the labels of the entries whose status is the
  checked-out one. No label is in both lists, together they are the labels of
  \<open>get_cards_by_case\<close>, and no label occurs twice there. Cards are compared by label,
  the identifying column that all three queries return.
\<close>

theorem lists_partition_by_status:
  assumes "reachable anything c"
  shows "map (fst \<circ> snd) (get_available_cards_by_case c cn) =
           map fst (filter (\<lambda>t. fst (snd t) = status_available) (get_cards_by_case c cn)) \<and>
         map (fst \<circ> snd) (get_checked_out_cards_by_case c cn) =
           map fst (filter (\<lambda>t. fst (snd t) = status_checked_out) (get_cards_by_case c cn)) \<and>
         set (map (fst \<circ> snd) (get_available_cards_by_case c cn)) \<inter>
           set (map (fst \<circ> snd) (get_checked_out_cards_by_case c cn)) = {} \<and>
         set (map (fst \<circ> snd) (get_available_cards_by_case c cn)) \<union>
           set (map (fst \<circ> snd) (get_checked_out_cards_by_case c cn)) =
           set (map fst (get_cards_by_case c cn)) \<and>
         distinct (map fst (get_cards_by_case c cn))"
proof -
  from assms have "conn_inv partition_inv c" by (rule reachable_partition_inv)
  then have "partition_inv (rows c)" by (rule conn_inv_rows)
  then have d: "distinct (map card_number (rows c))"
    and k: "\<And>r. r \<in> set (rows c) \<Longrightarrow> status r = status_available \<or> status r = status_checked_out"
    by (auto simp: partition_inv_def labels_unique_def statuses_known_def list_all_iff)
  from d have dr: "distinct (rows c)" and inj: "inj_on card_number (set (rows c))"
    by (simp_all add: distinct_map)
  have a: "map (fst \<circ> snd) (get_available_cards_by_case c cn) =
           map fst (filter (\<lambda>t. fst (snd t) = status_available) (get_cards_by_case c cn))"
    by (simp only: labels_available labels_all_with_status)
  have o: "map (fst \<circ> snd) (get_checked_out_cards_by_case c cn) =
           map fst (filter (\<lambda>t. fst (snd t) = status_checked_out) (get_cards_by_case c cn))"
    by (simp only: labels_checked_out labels_all_with_status)
  have sa: "set (map (fst \<circ> snd) (get_available_cards_by_case c cn)) =
      card_number ` {r \<in> set (rows c). case_number r = cn \<and> status r = status_available}"
    by (simp add: labels_available)
  have so: "set (map (fst \<circ> snd) (get_checked_out_cards_by_case c cn)) =
      card_number ` {r \<in> set (rows c). case_number r = cn \<and> status r = status_checked_out}"
    by (simp add: labels_checked_out)
  have sl: "set (map fst (get_cards_by_case c cn)) =
      card_number ` {r \<in> set (rows c). case_number r = cn}"
    by (simp add: labels_all)
  have disj: "set (map (fst \<circ> snd) (get_available_cards_by_case c cn)) \<inter>
           set (map (fst \<circ> snd) (get_checked_out_cards_by_case c cn)) = {}"
  proof -
    have False if "r1 \<in> set (rows c)" "r2 \<in> set (rows c)" "card_number r1 = card_number r2"
      "status r1 = status_available" "status r2 = status_checked_out" for r1 r2
    proof -
      from inj that(3,1,2) have "r1 = r2" by (rule inj_onD)
      with that(4,5) status_distinct show False by simp
    qed
    then show ?thesis unfolding sa so by blast
  qed
  have un: "set (map (fst \<circ> snd) (get_available_cards_by_case c cn)) \<union>
           set (map (fst \<circ> snd) (get_checked_out_cards_by_case c cn)) =
           set (map fst (get_cards_by_case c cn))"
    unfolding sa so sl using k by blast
  have dl: "distinct (map fst (get_cards_by_case c cn))"
    unfolding labels_all using dr inj
    by (auto simp: distinct_map intro: inj_on_subset)
  from a o disj un dl show ?thesis by (intro conjI)
qed

theorem lists_partition_by_status_witness:
  "set (map (fst \<circ> snd) (get_available_cards_by_case
          (idle (checkout_rows fixed_clock (Some ''Alice'') (Some ''CamA'') (Some ''Interview'')
                   2 [1] seed_table)) case_sd1)) \<inter>
   set (map (fst \<circ> snd) (get_checked_out_cards_by_case
          (idle (checkout_rows fixed_clock (Some ''Alice'') (Some ''CamA'') (Some ''Interview'')
                   2 [1] seed_table)) case_sd1)) = {} \<and>
   set (map (fst \<circ> snd) (get_available_cards_by_case
          (idle (checkout_rows fixed_clock (Some ''Alice'') (Some ''CamA'') (Some ''Interview'')
                   2 [1] seed_table)) case_sd1)) \<union>
   set (map (fst \<circ> snd) (get_checked_out_cards_by_case
          (idle (checkout_rows fixed_clock (Some ''Alice'') (Some ''CamA'') (Some ''Interview'')
                   2 [1] seed_table)) case_sd1)) =
   set (map fst (get_cards_by_case
          (idle (checkout_rows fixed_clock (Some ''Alice'') (Some ''CamA'') (Some ''Interview'')
                   2 [1] seed_table)) case_sd1))"
proof -
  let ?c = "idle (checkout_rows fixed_clock (Some ''Alice'') (Some ''CamA'') (Some ''Interview'')
                    2 [1] seed_table)"
  have a: "reachable anything ?c"
    by (rule reachable_after_checkout_seed) (simp_all add: anything_def bindable_simps)
  from lists_partition_by_status [OF a, of case_sd1] show ?thesis
    by (elim conjE) (intro conjI)
qed

subsection \<open>Seeding\<close>

text \<open>
  Claim C6. On the empty table \<open>insert_initial_data\<close> produces \<open>seed_table\<close>: 120 rows,
  of which each of the three cases has 40, with the indices 1 to 40 in this order; in
  the first case the capacity is 32G up to index 11, 64G up to index 18 and 128G from
  there on, in the second case always 64G and in the third always 32G; every status is
  the available one. Run again on that table, \<open>insert_initial_data\<close> returns it
  unchanged. The specification calls the three cases SD1, SD2 and microSD, after the
  prefixes of the labels; in the program their names are the literals of lines 61, 69
  and 77.
\<close>

theorem seed_deterministic_idempotent:
  "insert_initial_data [] = Inr seed_table \<and>
   length seed_table = 120 \<and>
   map (\<lambda>r. (card_index r, capacity r)) (filter (\<lambda>r. case_number r = case_sd1) seed_table) =
     map (\<lambda>k. (k, if k \<le> 11 then ''32G'' else if k \<le> 18 then ''64G'' else ''128G'')) [1..40] \<and>
   map (\<lambda>r. (card_index r, capacity r)) (filter (\<lambda>r. case_number r = case_sd2) seed_table) =
     map (\<lambda>k. (k, ''64G'')) [1..40] \<and>
   map (\<lambda>r. (card_index r, capacity r)) (filter (\<lambda>r. case_number r = case_microsd) seed_table) =
     map (\<lambda>k. (k, ''32G'')) [1..40] \<and>
   map status seed_table = replicate 120 status_available \<and>
   insert_initial_data seed_table = Inr seed_table"
proof -
  have again: "insert_initial_data seed_table = Inr seed_table"
    by (simp add: insert_initial_data_def length_seed_table)
  have sd1: "map (\<lambda>r. (card_index r, capacity r)) (filter (\<lambda>r. case_number r = case_sd1) seed_table) =
     map (\<lambda>k. (k, if k \<le> 11 then ''32G'' else if k \<le> 18 then ''64G'' else ''128G'')) [1..40]"
    by (simp add: seed_table_by_case comp_def seed_card_fields sd1_capacity_def)
  have sd2: "map (\<lambda>r. (card_index r, capacity r)) (filter (\<lambda>r. case_number r = case_sd2) seed_table) =
     map (\<lambda>k. (k, ''64G'')) [1..40]"
    by (simp add: seed_table_by_case comp_def seed_card_fields)
  have micro: "map (\<lambda>r. (card_index r, capacity r)) (filter (\<lambda>r. case_number r = case_microsd) seed_table) =
     map (\<lambda>k. (k, ''32G'')) [1..40]"
    by (simp add: seed_table_by_case comp_def seed_card_fields)
  from insert_initial_data_empty length_seed_table sd1 sd2 micro seed_table_status again
  show ?thesis by (intro conjI)
qed

subsection \<open>Checkout columns and status\<close>

text \<open>
  Claim C7. In every connection reachable when \<open>checkout_cards\<close> is only called with
  user name, equipment and shoot content that are not \<open>None\<close>, and for every row that
  the connection sees or would roll back to, the four checkout columns are all set if
  and only if the status is the checked-out one; a row that is not checked out is
  available and has all four \<open>NULL\<close>.
\<close>

theorem checkout_fields_iff_checked_out:
  assumes "reachable nonnull c" and "r \<in> set (rows c) \<union> set (committed c)"
  shows "((checkout_date r \<noteq> None \<and> user_name r \<noteq> None \<and> equipment r \<noteq> None \<and>
           shoot_content r \<noteq> None) \<longleftrightarrow> status r = status_checked_out) \<and>
         (status r = status_checked_out \<or>
          status r = status_available \<and> checkout_date r = None \<and> user_name r = None \<and>
          equipment r = None \<and> shoot_content r = None)"
proof -
  from assms(1) have inv: "conn_inv rows_consistent c"
    by (rule reachable_rows_consistent)
  from conn_inv_rows [OF inv] conn_inv_committed [OF inv] assms(2)
  have "row_consistent r"
    by (auto simp: rows_consistent_def list_all_iff)
  then show ?thesis
    by (auto simp: row_consistent_def split: if_splits)
qed

theorem checkout_fields_iff_checked_out_witness:
  "(checkout_date (checked_out_row (fixed_clock 2) (Some ''Alice'') (Some ''CamA'')
       (Some ''Interview'') (seed_card 1 ''SD1-1'' 1 ''32G'' case_sd1)) \<noteq> None \<and>
    user_name (checked_out_row (fixed_clock 2) (Some ''Alice'') (Some ''CamA'')
       (Some ''Interview'') (seed_card 1 ''SD1-1'' 1 ''32G'' case_sd1)) \<noteq> None \<and>
    equipment (checked_out_row (fixed_clock 2) (Some ''Alice'') (Some ''CamA'')
       (Some ''Interview'') (seed_card 1 ''SD1-1'' 1 ''32G'' case_sd1)) \<noteq> None \<and>
    shoot_content (checked_out_row (fixed_clock 2) (Some ''Alice'') (Some ''CamA'')
       (Some ''Interview'') (seed_card 1 ''SD1-1'' 1 ''32G'' case_sd1)) \<noteq> None) =
   (status (checked_out_row (fixed_clock 2) (Some ''Alice'') (Some ''CamA'')
       (Some ''Interview'') (seed_card 1 ''SD1-1'' 1 ''32G'' case_sd1)) = status_checked_out)"
proof -
  let ?c = "idle (checkout_rows fixed_clock (Some ''Alice'') (Some ''CamA'') (Some ''Interview'')
                    2 [1] seed_table)"
  let ?r = "checked_out_row (fixed_clock 2) (Some ''Alice'') (Some ''CamA'')
       (Some ''Interview'') (seed_card 1 ''SD1-1'' 1 ''32G'' case_sd1)"
  have a: "reachable nonnull ?c"
    by (rule reachable_after_checkout_seed) (simp_all add: nonnull_def bindable_simps)
  have b: "?r \<in> set (rows ?c) \<union> set (committed ?c)"
    using first_card_checked_out [of fixed_clock] by (simp add: rows_idle)
  from checkout_fields_iff_checked_out [OF a b] show ?thesis
    by (rule conjunct1)
qed

subsection \<open>The life cycle leaves the fixed columns alone\<close>

text \<open>
  Claim C8. For a card of the table, after a successful \<open>checkout_cards\<close> of a batch with
  its id and then a successful \<open>return_card\<close> of it, the columns id, label, index,
  capacity and case of every row are what they were, after the checkout and after the
  return; between the two the card is checked out with the data of the call and a
  checkout date, and after the return it is available again with its four checkout
  columns \<open>NULL\<close>.
\<close>

theorem lifecycle_frame:
  assumes "r \<in> set rs" and "id_col r \<in> set card_ids"
    and "checkout_cards f now (idle rs) card_ids u e n = (c1, Inr (True, m1))"
    and "return_card f' c1 (id_col r) = (c2, Inr (True, m2))"
  shows "map frame (rows c1) = map frame rs \<and> map frame (rows c2) = map frame rs \<and>
         id_col r \<in> id_col ` set (rows c1) \<and> id_col r \<in> id_col ` set (rows c2) \<and>
         (\<forall>r1 \<in> set (rows c1). id_col r1 = id_col r \<longrightarrow>
            status r1 = status_checked_out \<and> checkout_date r1 \<noteq> None \<and> user_name r1 = u \<and>
            equipment r1 = e \<and> shoot_content r1 = n) \<and>
         (\<forall>r2 \<in> set (rows c2). id_col r2 = id_col r \<longrightarrow>
            status r2 = status_available \<and> checkout_date r2 = None \<and> user_name r2 = None \<and>
            equipment r2 = None \<and> shoot_content r2 = None)"
proof -
  obtain ts where rows': "checkout_rows now u e n 2 card_ids rs =
      map (\<lambda>r. if id_col r \<in> set card_ids then checked_out_row (ts (id_col r)) u e n r else r) rs"
    using checkout_rows_map by blast
  let ?F = "\<lambda>r. if id_col r \<in> set card_ids then checked_out_row (ts (id_col r)) u e n r else r"
  have c1: "c1 = idle (checkout_rows now u e n 2 card_ids rs)"
    using successful_checkout [OF assms(3)] .
  then have r1: "rows c1 = map ?F rs"
    using rows' by (simp add: rows_idle)
  have c2: "c2 = idle (map (set_available (id_col r)) (rows c1))"
    using successful_return [of f' "rows c1" "id_col r" c2 m2] assms(4) c1
    by (simp add: rows_idle)
  have f1: "map frame (rows c1) = map frame rs"
    by (simp add: c1 rows_idle frame_checkout_rows)
  have f2: "map frame (rows c2) = map frame rs"
    unfolding c2 rows_idle frame_set_available by (rule f1)
  have ids: "map id_col (rows c1) = map id_col rs" "map id_col (rows c2) = map id_col rs"
    by (simp_all only: id_col_frame f1 f2)
  from assms(1) have mem: "id_col r \<in> set (map id_col rs)" by simp
  have e1: "id_col r \<in> id_col ` set (rows c1)"
    using mem unfolding ids(1) [symmetric] by (simp only: set_map)
  have e2: "id_col r \<in> id_col ` set (rows c2)"
    using mem unfolding ids(2) [symmetric] by (simp only: set_map)
  have p1: "status r1 = status_checked_out \<and> checkout_date r1 \<noteq> None \<and> user_name r1 = u \<and>
            equipment r1 = e \<and> shoot_content r1 = n"
    if "r1 \<in> set (rows c1)" and "id_col r1 = id_col r" for r1
  proof -
    from that(1) obtain r0 where "r0 \<in> set rs" and eq: "r1 = ?F r0"
      unfolding r1 by auto
    from eq that(2) assms(2) have "id_col r0 \<in> set card_ids"
      by (auto simp: checked_out_row_fields split: if_splits)
    with eq show ?thesis by (simp add: checked_out_row_fields)
  qed
  have p2: "status r2 = status_available \<and> checkout_date r2 = None \<and> user_name r2 = None \<and>
            equipment r2 = None \<and> shoot_content r2 = None"
    if "r2 \<in> set (rows c2)" and "id_col r2 = id_col r" for r2
  proof -
    from that(1) obtain r0 where eq: "r2 = set_available (id_col r) r0"
      unfolding c2 rows_idle by auto
    with that(2) have "id_col r0 = id_col r" by (simp add: set_available_fields)
    with eq show ?thesis by (simp add: set_available_fields)
  qed
  from f1 f2 e1 e2 p1 p2 show ?thesis by blast
qed

theorem lifecycle_frame_witness:
  "map frame
     (rows (fst (return_card no_faults
                   (fst (checkout_cards no_faults fixed_clock (idle seed_table) [1]
                           (Some ''Alice'') (Some ''CamA'') (Some ''Interview''))) 1))) =
   map frame seed_table"
proof -
  let ?r = "seed_card 1 ''SD1-1'' 1 ''32G'' case_sd1"
  let ?call = "checkout_cards no_faults fixed_clock (idle seed_table) [1]
                 (Some ''Alice'') (Some ''CamA'') (Some ''Interview'')"
  let ?rs1 = "checkout_rows fixed_clock (Some ''Alice'') (Some ''CamA'') (Some ''Interview'') 2 [1]
                seed_table"
  have a: "?r \<in> set seed_table" by (rule seed_table_first)
  have c: "id_col ?r \<in> set [1]" by (simp add: seed_card_fields)
  have d: "?call = (fst ?call, Inr (True, msg_checkout_done))"
    by (simp add: checkout_seed_table bindable_simps)
  have c1: "fst ?call = idle ?rs1" by (simp add: checkout_seed_table bindable_simps)
  have "fetchone_status (idle ?rs1) 1 = Some status_checked_out"
    by (rule first_card_status)
  then have e: "return_card no_faults (fst ?call) (id_col ?r) =
      (fst (return_card no_faults (fst ?call) 1), Inr (True, msg_return_done))"
    by (simp add: c1 return_card_no_faults seed_card_fields int64_def)
  from lifecycle_frame [OF a c d e] show ?thesis
    by (simp only: seed_card_fields)
qed

subsection \<open>Exceptions of the store\<close>

text \<open>
  Claim C9 says that every exception of the store is caught and turned into a failure
  pair. The handlers of lines 137 to 139 and 164 to 166 are written to do so, but the
  \<open>ROLLBACK\<close> they execute is itself a statement of the store and is not guarded. On the
  seeded table, and on the seeded table with card 1 checked out, let the \<open>UPDATE\<close> fail
  because the disk is full: SQLite has then rolled the transaction back already, the
  \<open>ROLLBACK\<close> of the handler raises, and that exception leaves \<open>checkout_cards\<close> and
  \<open>return_card\<close>.
\<close>

theorem exception_escapes_handler:
  "snd (checkout_cards disk_full_at_update fixed_clock (idle seed_table) [1]
          (Some ''Alice'') (Some ''CamA'') (Some ''Interview'')) =
     Inl ''cannot rollback - no transaction is active'' \<and>
   snd (return_card disk_full_at_update
          (idle (checkout_rows fixed_clock (Some ''Alice'') (Some ''CamA'') (Some ''Interview'')
                   2 [1] seed_table)) 1) =
     Inl ''cannot rollback - no transaction is active''"
proof
  show "snd (checkout_cards disk_full_at_update fixed_clock (idle seed_table) [1]
          (Some ''Alice'') (Some ''CamA'') (Some ''Interview'')) =
     Inl ''cannot rollback - no transaction is active''"
    by (simp add: checkout_cards_def checkout_try_disk_full except_handler_def execute_def
        disk_full_at_update_def rollback_idle del: run_stmt.simps(1,2))
  show "snd (return_card disk_full_at_update
          (idle (checkout_rows fixed_clock (Some ''Alice'') (Some ''CamA'') (Some ''Interview'')
                   2 [1] seed_table)) 1) =
     Inl ''cannot rollback - no transaction is active''"
    by (simp add: return_card_def return_try_disk_full except_handler_def execute_def
        disk_full_at_update_def rollback_idle del: run_stmt.simps(1,2) checkout_rows.simps)
qed

subsection \<open>The empty batch\<close>

text \<open>
  Claim C10, as amended. With an empty batch \<open>checkout_cards\<close> on a working store leaves
  the connection as it was and returns the success pair of line 136: SQLite accepts the
  empty \<open>IN ()\<close> list, the query returns no row, so no card is unavailable, and the loop
  runs zero times. Whatever failures the store adds, the committed rows stay as they were.
\<close>

theorem checkout_cards_empty_batch:
  "checkout_cards no_faults now (idle rs) [] u e n = (idle rs, Inr (True, msg_checkout_done)) \<and>
   (\<forall>f. committed (fst (checkout_cards f now (idle rs) [] u e n)) = rs)"
proof -
  have fine: "checkout_cards no_faults now (idle rs) [] u e n = (idle rs, Inr (True, msg_checkout_done))"
    by (simp add: checkout_cards_no_faults unavailable_cards_eq bindable_simps)
  have "committed (fst (checkout_cards f now (idle rs) [] u e n)) = rs" for f
  proof -
    obtain c' out where res: "checkout_cards f now (idle rs) [] u e n = (c', out)"
      by (cases "checkout_cards f now (idle rs) [] u e n") auto
    from checkout_cards_faults [OF res] show ?thesis
      by (auto simp: res committed_idle)
  qed
  with fine show ?thesis by blast
qed

text \<open>
  The claim as stated, that the empty batch ends in the error branch and never reports
  success, fails on the seeded table.
\<close>

theorem checkout_cards_empty_batch_counterexample:
  "snd (checkout_cards no_faults fixed_clock (idle seed_table) []
          (Some ''Alice'') (Some ''CamA'') (Some ''Interview'')) =
     Inr (True, msg_checkout_done)"
  by (simp add: checkout_seed_table bindable_simps)

end
